theory Spec2Isabelle
  imports Main "HOL-Library.AList" "HOL-Library.DAList" "HOL-Library.Multiset"
begin

section \<open>Python values, strings and errors\<close>

text \<open>
  The program is a single Python script (\<^verbatim>\<open>src/main.py\<close>): five item generators that draw
  from the process-wide \<^verbatim>\<open>random\<close> generator, and event handlers that read and write the
  session state. Python strings are modelled by their UTF-8 encoding as \<^typ>\<open>string\<close>; two
  Python strings are equal exactly when their encodings are, and the program only compares
  and concatenates them.
\<close>

datatype error = IndexError | KeyError | ValueError

text \<open>Values of type \<^verbatim>\<open>Any\<close>: what a widget or an answer field can hold.\<close>

datatype pyval = VNone | VStr string | VInt int

fun digits :: "nat \<Rightarrow> string" where
  "digits n = (if n < 10 then [''0123456789'' ! n]
               else digits (n div 10) @ [''0123456789'' ! (n mod 10)])"

declare digits.simps [simp del]

definition str_int :: "int \<Rightarrow> string" where
  \<comment> \<open>\<^verbatim>\<open>str(i)\<close> and \<^verbatim>\<open>f"{i}"\<close> for an int\<close>
  "str_int i = (if i < 0 then CHR ''-'' # digits (nat (- i)) else digits (nat i))"

fun str :: "pyval \<Rightarrow> string" where
  "str VNone = ''None''"
| "str (VStr s) = s"
| "str (VInt i) = str_int i"

section \<open>The random generator\<close>

text \<open>
  \<^verbatim>\<open>random\<close> is the interpreter's library, not part of the program, so the generator is a
  parameter: its state is an infinite sequence of raw draws together with the number of
  draws consumed so far. \<^verbatim>\<open>_randbelow(n)\<close> returns some number below \<open>n\<close> and advances the
  state; the model takes the next raw draw modulo \<open>n\<close>, so every sequence of results the
  library can produce is produced by some sequence of draws. It is only called with
  \<open>0 < n\<close>.
\<close>

record rng =
  draws :: "nat \<Rightarrow> nat"
  pos :: nat

definition randbelow :: "nat \<Rightarrow> rng \<Rightarrow> nat \<times> rng" where
  "randbelow n g = (draws g (pos g) mod n, g\<lparr>pos := Suc (pos g)\<rparr>)"

definition choice :: "'a list \<Rightarrow> rng \<Rightarrow> error + 'a \<times> rng" where
  \<comment> \<open>\<^verbatim>\<open>random.choice(seq)\<close>: IndexError on an empty sequence\<close>
  "choice seq g =
     (if seq = [] then Inl IndexError
      else (case randbelow (length seq) g of (i, g') \<Rightarrow> Inr (seq ! i, g')))"

definition randint :: "int \<Rightarrow> int \<Rightarrow> rng \<Rightarrow> error + int \<times> rng" where
  \<comment> \<open>\<^verbatim>\<open>random.randint(a, b)\<close>: ValueError on an empty range\<close>
  "randint a b g =
     (if b < a then Inl ValueError
      else (case randbelow (nat (b - a + 1)) g of (i, g') \<Rightarrow> Inr (a + int i, g')))"

text \<open>
  \<^verbatim>\<open>random.shuffle(x)\<close>: for \<open>i\<close> from \<open>len(x) - 1\<close> down to \<open>1\<close>, swap \<open>x[i]\<close> with
  \<open>x[j]\<close> for a drawn \<open>j \<le> i\<close>.
\<close>

fun shuffle_from :: "nat \<Rightarrow> 'a list \<Rightarrow> rng \<Rightarrow> 'a list \<times> rng" where
  "shuffle_from 0 x g = (x, g)"
| "shuffle_from (Suc i) x g =
     (case randbelow (Suc i + 1) g of
        (j, g') \<Rightarrow> shuffle_from i (x[Suc i := x ! j, j := x ! Suc i]) g')"

definition shuffle :: "'a list \<Rightarrow> rng \<Rightarrow> 'a list \<times> rng" where
  "shuffle x g = shuffle_from (length x - 1) x g"

text \<open>
  \<^verbatim>\<open>random.sample(population, k)\<close> on a small population: \<open>k\<close> times, draw an index \<open>j\<close>
  into the live part of a copy of the population, take \<open>pool[j]\<close> and move the last live
  element into its place. ValueError when \<open>k\<close> exceeds the population.
\<close>

fun sample_from :: "nat \<Rightarrow> nat \<Rightarrow> 'a list \<Rightarrow> rng \<Rightarrow> 'a list \<times> rng" where
  "sample_from 0 m pool g = ([], g)"
| "sample_from (Suc k) m pool g =
     (case randbelow m g of
        (j, g1) \<Rightarrow>
          (case sample_from k (m - 1) (pool[j := pool ! (m - 1)]) g1 of
             (rest, g2) \<Rightarrow> (pool ! j # rest, g2)))"

definition sample :: "'a list \<Rightarrow> nat \<Rightarrow> rng \<Rightarrow> error + 'a list \<times> rng" where
  "sample population k g =
     (if length population < k then Inl ValueError
      else Inr (sample_from k (length population) population g))"

section \<open>Objective items and their generators\<close>

record ObjItem =
  id' :: string
  topic :: string
  stem :: string
  choices :: "string list"
  answer :: pyval
  kind :: string
  points :: int

subsection \<open>String constants of the templates (UTF-8)\<close>

definition kr_angle_sum_pre :: string where \<comment> \<open>the triangle's two interior angles are\<close>
  "kr_angle_sum_pre =
     [CHR 0xEC, CHR 0x82, CHR 0xBC, CHR 0xEA, CHR 0xB0, CHR 0x81, CHR 0xED, CHR 0x98, CHR 0x95,
      CHR 0xEC, CHR 0x9D, CHR 0x98, CHR '' '', CHR 0xEB, CHR 0x91, CHR 0x90, CHR '' '',
      CHR 0xEB, CHR 0x82, CHR 0xB4, CHR 0xEA, CHR 0xB0, CHR 0x81, CHR 0xEC, CHR 0x9D,
      CHR 0xB4, CHR '' '']"

definition kr_deg_comma :: string where \<comment> \<open>degree sign, comma, space\<close>
  "kr_deg_comma =
     [CHR 0xC2, CHR 0xB0, CHR '','', CHR '' '']"

definition kr_angle_sum_post :: string where \<comment> \<open>degrees; what is the remaining angle?\<close>
  "kr_angle_sum_post =
     [CHR 0xC2, CHR 0xB0, CHR 0xEC, CHR 0x9D, CHR 0xBC, CHR '' '', CHR 0xEB, CHR 0x95, CHR 0x8C,
      CHR '','', CHR '' '', CHR 0xEB, CHR 0x82, CHR 0x98, CHR 0xEB, CHR 0xA8, CHR 0xB8,
      CHR 0xEC, CHR 0xA7, CHR 0x80, CHR '' '', CHR 0xEA, CHR 0xB0, CHR 0x81, CHR 0xEC,
      CHR 0x9D, CHR 0x98, CHR '' '', CHR 0xED, CHR 0x81, CHR 0xAC, CHR 0xEA, CHR 0xB8,
      CHR 0xB0, CHR 0xEB, CHR 0x8A, CHR 0x94, CHR ''?'']"

definition kr_exterior_pre :: string where \<comment> \<open>one exterior angle of the triangle is\<close>
  "kr_exterior_pre =
     [CHR 0xEC, CHR 0x82, CHR 0xBC, CHR 0xEA, CHR 0xB0, CHR 0x81, CHR 0xED, CHR 0x98, CHR 0x95,
      CHR 0xEC, CHR 0x9D, CHR 0x98, CHR '' '', CHR 0xED, CHR 0x95, CHR 0x9C, CHR '' '',
      CHR 0xEC, CHR 0x99, CHR 0xB8, CHR 0xEA, CHR 0xB0, CHR 0x81, CHR 0xEC, CHR 0x9D,
      CHR 0xB4, CHR '' '']"

definition kr_exterior_mid :: string where \<comment> \<open>degrees. One of the remote interior angles is\<close>
  "kr_exterior_mid =
     [CHR 0xC2, CHR 0xB0, CHR 0xEC, CHR 0x9D, CHR 0xB4, CHR 0xEB, CHR 0x8B, CHR 0xA4, CHR ''.'',
      CHR '' '', CHR 0xEC, CHR 0x9B, CHR 0x90, CHR 0xEA, CHR 0xB2, CHR 0xA9, CHR '' '',
      CHR 0xEB, CHR 0x82, CHR 0xB4, CHR 0xEA, CHR 0xB0, CHR 0x81, CHR '' '', CHR 0xEC,
      CHR 0xA4, CHR 0x91, CHR '' '', CHR 0xED, CHR 0x95, CHR 0x98, CHR 0xEB, CHR 0x82,
      CHR 0x98, CHR 0xEA, CHR 0xB0, CHR 0x80, CHR '' '']"

definition kr_exterior_post :: string where \<comment> \<open>degrees; what is the other remote interior angle?\<close>
  "kr_exterior_post =
     [CHR 0xC2, CHR 0xB0, CHR 0xEC, CHR 0x9D, CHR 0xBC, CHR '' '', CHR 0xEB, CHR 0x95, CHR 0x8C,
      CHR '','', CHR '' '', CHR 0xEB, CHR 0x8B, CHR 0xA4, CHR 0xEB, CHR 0xA5, CHR 0xB8,
      CHR '' '', CHR 0xEC, CHR 0x9B, CHR 0x90, CHR 0xEA, CHR 0xB2, CHR 0xA9, CHR '' '',
      CHR 0xEB, CHR 0x82, CHR 0xB4, CHR 0xEA, CHR 0xB0, CHR 0x81, CHR 0xEC, CHR 0x9D,
      CHR 0x98, CHR '' '', CHR 0xED, CHR 0x81, CHR 0xAC, CHR 0xEA, CHR 0xB8, CHR 0xB0,
      CHR 0xEB, CHR 0x8A, CHR 0x94, CHR ''?'']"

definition kr_equilateral :: string where \<comment> \<open>equilateral triangle\<close>
  "kr_equilateral =
     [CHR 0xEC, CHR 0xA0, CHR 0x95, CHR 0xEC, CHR 0x82, CHR 0xBC, CHR 0xEA, CHR 0xB0, CHR 0x81,
      CHR 0xED, CHR 0x98, CHR 0x95]"

definition kr_isosceles :: string where \<comment> \<open>isosceles triangle\<close>
  "kr_isosceles =
     [CHR 0xEC, CHR 0x9D, CHR 0xB4, CHR 0xEB, CHR 0x93, CHR 0xB1, CHR 0xEB, CHR 0xB3, CHR 0x80,
      CHR 0xEC, CHR 0x82, CHR 0xBC, CHR 0xEA, CHR 0xB0, CHR 0x81, CHR 0xED, CHR 0x98,
      CHR 0x95]"

definition kr_scalene :: string where \<comment> \<open>scalene triangle\<close>
  "kr_scalene =
     [CHR 0xEB, CHR 0xB6, CHR 0x80, CHR 0xEB, CHR 0x93, CHR 0xB1, CHR 0xEB, CHR 0xB3, CHR 0x80,
      CHR 0xEC, CHR 0x82, CHR 0xBC, CHR 0xEA, CHR 0xB0, CHR 0x81, CHR 0xED, CHR 0x98,
      CHR 0x95]"

definition kr_right :: string where \<comment> \<open>right triangle\<close>
  "kr_right =
     [CHR 0xEC, CHR 0xA7, CHR 0x81, CHR 0xEA, CHR 0xB0, CHR 0x81, CHR 0xEC, CHR 0x82, CHR 0xBC,
      CHR 0xEA, CHR 0xB0, CHR 0x81, CHR 0xED, CHR 0x98, CHR 0x95]"

definition kr_obtuse :: string where \<comment> \<open>obtuse triangle\<close>
  "kr_obtuse =
     [CHR 0xEB, CHR 0x91, CHR 0x94, CHR 0xEA, CHR 0xB0, CHR 0x81, CHR 0xEC, CHR 0x82, CHR 0xBC,
      CHR 0xEA, CHR 0xB0, CHR 0x81, CHR 0xED, CHR 0x98, CHR 0x95]"

definition kr_acute :: string where \<comment> \<open>acute triangle\<close>
  "kr_acute =
     [CHR 0xEC, CHR 0x98, CHR 0x88, CHR 0xEA, CHR 0xB0, CHR 0x81, CHR 0xEC, CHR 0x82, CHR 0xBC,
      CHR 0xEA, CHR 0xB0, CHR 0x81, CHR 0xED, CHR 0x98, CHR 0x95]"

definition kr_sides_pre :: string where \<comment> \<open>the three side lengths are\<close>
  "kr_sides_pre =
     [CHR 0xEC, CHR 0x84, CHR 0xB8, CHR '' '', CHR 0xEB, CHR 0xB3, CHR 0x80, CHR 0xEC, CHR 0x9D,
      CHR 0x98, CHR '' '', CHR 0xEA, CHR 0xB8, CHR 0xB8, CHR 0xEC, CHR 0x9D, CHR 0xB4,
      CHR 0xEA, CHR 0xB0, CHR 0x80, CHR '' '']"

definition kr_sides_post :: string where \<comment> \<open>; what is the classification of the triangle?\<close>
  "kr_sides_post =
     [CHR 0xEC, CHR 0x9D, CHR 0xB8, CHR '' '', CHR 0xEC, CHR 0x82, CHR 0xBC, CHR 0xEA, CHR 0xB0,
      CHR 0x81, CHR 0xED, CHR 0x98, CHR 0x95, CHR 0xEC, CHR 0x9D, CHR 0x98, CHR '' '',
      CHR 0xEB, CHR 0xB6, CHR 0x84, CHR 0xEB, CHR 0xA5, CHR 0x98, CHR 0xEB, CHR 0x8A,
      CHR 0x94, CHR ''?'']"

definition kr_angles_pre :: string where \<comment> \<open>one angle of some triangle is\<close>
  "kr_angles_pre =
     [CHR 0xEC, CHR 0x96, CHR 0xB4, CHR 0xEB, CHR 0x96, CHR 0xA4, CHR '' '', CHR 0xEC, CHR 0x82,
      CHR 0xBC, CHR 0xEA, CHR 0xB0, CHR 0x81, CHR 0xED, CHR 0x98, CHR 0x95, CHR 0xEC,
      CHR 0x9D, CHR 0x98, CHR '' '', CHR 0xED, CHR 0x95, CHR 0x9C, CHR '' '', CHR 0xEA,
      CHR 0xB0, CHR 0x81, CHR 0xEC, CHR 0x9D, CHR 0xB4, CHR '' '']"

definition kr_angles_post :: string where \<comment> \<open>degrees. What is the classification of this triangle?\<close>
  "kr_angles_post =
     [CHR 0xC2, CHR 0xB0, CHR 0xEC, CHR 0x9D, CHR 0xB4, CHR 0xEB, CHR 0x8B, CHR 0xA4, CHR ''.'',
      CHR '' '', CHR 0xEC, CHR 0x9D, CHR 0xB4, CHR '' '', CHR 0xEC, CHR 0x82, CHR 0xBC,
      CHR 0xEA, CHR 0xB0, CHR 0x81, CHR 0xED, CHR 0x98, CHR 0x95, CHR 0xEC, CHR 0x9D,
      CHR 0x98, CHR '' '', CHR 0xEB, CHR 0xB6, CHR 0x84, CHR 0xEB, CHR 0xA5, CHR 0x98,
      CHR 0xEB, CHR 0x8A, CHR 0x94, CHR ''?'']"

definition kr_stem_sss :: string where \<comment> \<open>three corresponding sides equal\<close>
  "kr_stem_sss =
     [CHR 0xEB, CHR 0x91, CHR 0x90, CHR '' '', CHR 0xEC, CHR 0x82, CHR 0xBC, CHR 0xEA, CHR 0xB0,
      CHR 0x81, CHR 0xED, CHR 0x98, CHR 0x95, CHR 0xEC, CHR 0x97, CHR 0x90, CHR 0xEC,
      CHR 0x84, CHR 0x9C, CHR '' '', CHR 0xEB, CHR 0x8C, CHR 0x80, CHR 0xEC, CHR 0x9D,
      CHR 0x91, CHR 0xED, CHR 0x95, CHR 0x98, CHR 0xEB, CHR 0x8A, CHR 0x94, CHR '' '',
      CHR 0xEC, CHR 0x84, CHR 0xB8, CHR '' '', CHR 0xEB, CHR 0xB3, CHR 0x80, CHR 0xEC,
      CHR 0x9D, CHR 0x98, CHR '' '', CHR 0xEA, CHR 0xB8, CHR 0xB8, CHR 0xEC, CHR 0x9D,
      CHR 0xB4, CHR 0xEA, CHR 0xB0, CHR 0x80, CHR '' '', CHR 0xEA, CHR 0xB0, CHR 0x81,
      CHR 0xEA, CHR 0xB0, CHR 0x81, CHR '' '', CHR 0xEA, CHR 0xB0, CHR 0x99, CHR 0xEB,
      CHR 0x8B, CHR 0xA4, CHR ''.'', CHR '' '', CHR 0xED, CHR 0x95, CHR 0xA9, CHR 0xEB,
      CHR 0x8F, CHR 0x99, CHR '' '', CHR 0xED, CHR 0x8C, CHR 0x90, CHR 0xEB, CHR 0x8B,
      CHR 0xA8, CHR '' '', CHR 0xEA, CHR 0xB7, CHR 0xBC, CHR 0xEA, CHR 0xB1, CHR 0xB0,
      CHR 0xEB, CHR 0x8A, CHR 0x94, CHR ''?'']"

definition kr_stem_sas :: string where \<comment> \<open>two sides and the included angle equal\<close>
  "kr_stem_sas =
     [CHR 0xEB, CHR 0x91, CHR 0x90, CHR '' '', CHR 0xEB, CHR 0xB3, CHR 0x80, CHR 0xEC, CHR 0x9D,
      CHR 0x98, CHR '' '', CHR 0xEA, CHR 0xB8, CHR 0xB8, CHR 0xEC, CHR 0x9D, CHR 0xB4,
      CHR 0xEC, CHR 0x99, CHR 0x80, CHR '' '', CHR 0xEA, CHR 0xB7, CHR 0xB8, CHR '' '',
      CHR 0xEB, CHR 0x81, CHR 0xBC, CHR 0xEC, CHR 0x9D, CHR 0xB8, CHR 0xEA, CHR 0xB0,
      CHR 0x81, CHR 0xEC, CHR 0x9D, CHR 0xB4, CHR '' '', CHR 0xEA, CHR 0xB0, CHR 0x81,
      CHR 0xEA, CHR 0xB0, CHR 0x81, CHR '' '', CHR 0xEA, CHR 0xB0, CHR 0x99, CHR 0xEB,
      CHR 0x8B, CHR 0xA4, CHR ''.'', CHR '' '', CHR 0xED, CHR 0x95, CHR 0xA9, CHR 0xEB,
      CHR 0x8F, CHR 0x99, CHR '' '', CHR 0xED, CHR 0x8C, CHR 0x90, CHR 0xEB, CHR 0x8B,
      CHR 0xA8, CHR '' '', CHR 0xEA, CHR 0xB7, CHR 0xBC, CHR 0xEA, CHR 0xB1, CHR 0xB0,
      CHR 0xEB, CHR 0x8A, CHR 0x94, CHR ''?'']"

definition kr_stem_nonincluded :: string where \<comment> \<open>two angles and a side not between them equal\<close>
  "kr_stem_nonincluded =
     [CHR 0xEB, CHR 0x91, CHR 0x90, CHR '' '', CHR 0xEA, CHR 0xB0, CHR 0x81, CHR 0xEA, CHR 0xB3,
      CHR 0xBC, CHR '' '', CHR 0xEA, CHR 0xB7, CHR 0xB8, CHR '' '', CHR 0xEC, CHR 0x82,
      CHR 0xAC, CHR 0xEC, CHR 0x9D, CHR 0xB4, CHR 0xEC, CHR 0x97, CHR 0x90, CHR '' '',
      CHR 0xEC, CHR 0x9E, CHR 0x88, CHR 0xEC, CHR 0xA7, CHR 0x80, CHR '' '', CHR 0xEC,
      CHR 0x95, CHR 0x8A, CHR 0xEC, CHR 0x9D, CHR 0x80, CHR '' '', CHR 0xED, CHR 0x95,
      CHR 0x9C, CHR '' '', CHR 0xEB, CHR 0xB3, CHR 0x80, CHR 0xEC, CHR 0x9D, CHR 0xB4,
      CHR '' '', CHR 0xEA, CHR 0xB0, CHR 0x81, CHR 0xEA, CHR 0xB0, CHR 0x81, CHR '' '',
      CHR 0xEA, CHR 0xB0, CHR 0x99, CHR 0xEB, CHR 0x8B, CHR 0xA4, CHR ''.'', CHR '' '',
      CHR 0xED, CHR 0x95, CHR 0xA9, CHR 0xEB, CHR 0x8F, CHR 0x99, CHR '' '', CHR 0xED,
      CHR 0x8C, CHR 0x90, CHR 0xEB, CHR 0x8B, CHR 0xA8, CHR '' '', CHR 0xEA, CHR 0xB7,
      CHR 0xBC, CHR 0xEA, CHR 0xB1, CHR 0xB0, CHR 0xEB, CHR 0x8A, CHR 0x94, CHR ''?'']"

definition kr_stem_two_angles_side :: string where \<comment> \<open>two angles and one side equal\<close>
  "kr_stem_two_angles_side =
     [CHR 0xEB, CHR 0x91, CHR 0x90, CHR '' '', CHR 0xEA, CHR 0xB0, CHR 0x81, CHR 0xEA, CHR 0xB3,
      CHR 0xBC, CHR '' '', CHR 0xED, CHR 0x95, CHR 0x9C, CHR '' '', CHR 0xEB, CHR 0xB3,
      CHR 0x80, CHR 0xEC, CHR 0x9D, CHR 0xB4, CHR '' '', CHR 0xEA, CHR 0xB0, CHR 0x81,
      CHR 0xEA, CHR 0xB0, CHR 0x81, CHR '' '', CHR 0xEA, CHR 0xB0, CHR 0x99, CHR 0xEB,
      CHR 0x8B, CHR 0xA4, CHR ''.'', CHR '' '', CHR 0xED, CHR 0x95, CHR 0xA9, CHR 0xEB,
      CHR 0x8F, CHR 0x99, CHR '' '', CHR 0xED, CHR 0x8C, CHR 0x90, CHR 0xEB, CHR 0x8B,
      CHR 0xA8, CHR '' '', CHR 0xEA, CHR 0xB7, CHR 0xBC, CHR 0xEA, CHR 0xB1, CHR 0xB0,
      CHR 0xEB, CHR 0x8A, CHR 0x94, CHR ''?'']"

definition kr_hl :: string where \<comment> \<open>HL (right triangle)\<close>
  "kr_hl =
     [CHR ''H'', CHR ''L'', CHR ''('', CHR 0xEC, CHR 0xA7, CHR 0x81, CHR 0xEA, CHR 0xB0,
      CHR 0x81, CHR 0xEC, CHR 0x82, CHR 0xBC, CHR 0xEA, CHR 0xB0, CHR 0x81, CHR 0xED,
      CHR 0x98, CHR 0x95, CHR '')'']"

definition kr_undecidable :: string where \<comment> \<open>cannot be decided\<close>
  "kr_undecidable =
     [CHR 0xED, CHR 0x8C, CHR 0x90, CHR 0xEB, CHR 0x8B, CHR 0xA8, CHR '' '', CHR 0xEB, CHR 0xB6,
      CHR 0x88, CHR 0xEA, CHR 0xB0, CHR 0x80]"

definition kr_sim_pre :: string where \<comment> \<open>two angles of the two triangles are respectively\<close>
  "kr_sim_pre =
     [CHR 0xEB, CHR 0x91, CHR 0x90, CHR '' '', CHR 0xEC, CHR 0x82, CHR 0xBC, CHR 0xEA, CHR 0xB0,
      CHR 0x81, CHR 0xED, CHR 0x98, CHR 0x95, CHR 0xEC, CHR 0x9D, CHR 0x98, CHR '' '',
      CHR 0xEB, CHR 0x91, CHR 0x90, CHR '' '', CHR 0xEA, CHR 0xB0, CHR 0x81, CHR 0xEC,
      CHR 0x9D, CHR 0xB4, CHR '' '', CHR 0xEA, CHR 0xB0, CHR 0x81, CHR 0xEA, CHR 0xB0,
      CHR 0x81, CHR '' '']"

definition kr_sim_post :: string where \<comment> \<open>degrees and equal. Can similarity be decided?\<close>
  "kr_sim_post =
     [CHR 0xC2, CHR 0xB0, CHR 0xEB, CHR 0xA1, CHR 0x9C, CHR '' '', CHR 0xEA, CHR 0xB0, CHR 0x99,
      CHR 0xEB, CHR 0x8B, CHR 0xA4, CHR ''.'', CHR '' '', CHR 0xEB, CHR 0x8B, CHR 0xAE,
      CHR 0xEC, CHR 0x9D, CHR 0x8C, CHR '' '', CHR 0xED, CHR 0x8C, CHR 0x90, CHR 0xEB,
      CHR 0x8B, CHR 0xA8, CHR 0xEC, CHR 0x9D, CHR 0xB4, CHR '' '', CHR 0xEA, CHR 0xB0,
      CHR 0x80, CHR 0xEB, CHR 0x8A, CHR 0xA5, CHR 0xED, CHR 0x95, CHR 0x9C, CHR 0xEA,
      CHR 0xB0, CHR 0x80, CHR ''?'']"

definition kr_possible_aa :: string where \<comment> \<open>possible (AA)\<close>
  "kr_possible_aa =
     [CHR 0xEA, CHR 0xB0, CHR 0x80, CHR 0xEB, CHR 0x8A, CHR 0xA5, CHR ''('', CHR ''A'',
      CHR ''A'', CHR '')'']"

definition kr_impossible :: string where \<comment> \<open>impossible\<close>
  "kr_impossible =
     [CHR 0xEB, CHR 0xB6, CHR 0x88, CHR 0xEA, CHR 0xB0, CHR 0x80, CHR 0xEB, CHR 0x8A, CHR 0xA5]"

definition kr_possible_sss :: string where \<comment> \<open>possible (SSS)\<close>
  "kr_possible_sss =
     [CHR 0xEA, CHR 0xB0, CHR 0x80, CHR 0xEB, CHR 0x8A, CHR 0xA5, CHR ''('', CHR ''S'',
      CHR ''S'', CHR ''S'', CHR '')'']"

definition kr_possible_sas :: string where \<comment> \<open>possible (SAS)\<close>
  "kr_possible_sas =
     [CHR 0xEA, CHR 0xB0, CHR 0x80, CHR 0xEB, CHR 0x8A, CHR 0xA5, CHR ''('', CHR ''S'',
      CHR ''A'', CHR ''S'', CHR '')'']"

definition kr_topic_angle_sum :: string where \<comment> \<open>angle sum\<close>
  "kr_topic_angle_sum =
     [CHR 0xEA, CHR 0xB0, CHR 0x81, CHR 0xEC, CHR 0x9D, CHR 0x98, CHR '' '', CHR 0xED, CHR 0x95,
      CHR 0xA9]"

definition kr_topic_exterior :: string where \<comment> \<open>exterior and interior angles\<close>
  "kr_topic_exterior =
     [CHR 0xEC, CHR 0x99, CHR 0xB8, CHR 0xEA, CHR 0xB0, CHR 0x81, CHR 0xEA, CHR 0xB3, CHR 0xBC,
      CHR '' '', CHR 0xEB, CHR 0x82, CHR 0xB4, CHR 0xEA, CHR 0xB0, CHR 0x81]"

definition kr_topic_types :: string where \<comment> \<open>classification of triangles\<close>
  "kr_topic_types =
     [CHR 0xEC, CHR 0x82, CHR 0xBC, CHR 0xEA, CHR 0xB0, CHR 0x81, CHR 0xED, CHR 0x98, CHR 0x95,
      CHR 0xEC, CHR 0x9D, CHR 0x98, CHR '' '', CHR 0xEB, CHR 0xB6, CHR 0x84, CHR 0xEB,
      CHR 0xA5, CHR 0x98]"

definition kr_topic_congruence :: string where \<comment> \<open>congruence conditions\<close>
  "kr_topic_congruence =
     [CHR 0xED, CHR 0x95, CHR 0xA9, CHR 0xEB, CHR 0x8F, CHR 0x99, CHR 0xEC, CHR 0xA1, CHR 0xB0,
      CHR 0xEA, CHR 0xB1, CHR 0xB4]"

definition kr_topic_similarity :: string where \<comment> \<open>similarity basics\<close>
  "kr_topic_similarity =
     [CHR 0xEB, CHR 0x8B, CHR 0xAE, CHR 0xEC, CHR 0x9D, CHR 0x8C, CHR '' '', CHR 0xEA, CHR 0xB8,
      CHR 0xB0, CHR 0xEC, CHR 0xB4, CHR 0x88]"

definition kr_hakbeon :: string where \<comment> \<open>student number\<close>
  "kr_hakbeon =
     [CHR 0xED, CHR 0x95, CHR 0x99, CHR 0xEB, CHR 0xB2, CHR 0x88]"

definition kr_ireum :: string where \<comment> \<open>name\<close>
  "kr_ireum =
     [CHR 0xEC, CHR 0x9D, CHR 0xB4, CHR 0xEB, CHR 0xA6, CHR 0x84]"

definition kr_name_hong :: string where \<comment> \<open>Hong Gildong\<close>
  "kr_name_hong =
     [CHR 0xED, CHR 0x99, CHR 0x8D, CHR 0xEA, CHR 0xB8, CHR 0xB8, CHR 0xEB, CHR 0x8F, CHR 0x99]"

definition kr_name_kim :: string where \<comment> \<open>Kim Yeonghui\<close>
  "kr_name_kim =
     [CHR 0xEA, CHR 0xB9, CHR 0x80, CHR 0xEC, CHR 0x98, CHR 0x81, CHR 0xED, CHR 0x9D, CHR 0xAC]"

definition kr_name_lee :: string where \<comment> \<open>Lee Minho\<close>
  "kr_name_lee =
     [CHR 0xEC, CHR 0x9D, CHR 0xB4, CHR 0xEB, CHR 0xAF, CHR 0xBC, CHR 0xED, CHR 0x98, CHR 0xB8]"

subsection \<open>Angle sum\<close>

definition angle_range :: "int list" where
  \<comment> \<open>\<^verbatim>\<open>range(20, 121, 5)\<close>\<close>
  "angle_range = map (\<lambda>k. 20 + 5 * int k) [0..<21]"

text \<open>The re-sampling loop of \<^verbatim>\<open>gen_angle_sum_item\<close>; \<open>None\<close> when it never ends.\<close>

partial_function (option) angle_loop ::
  "int \<Rightarrow> int \<Rightarrow> rng \<Rightarrow> (error + (int \<times> int) \<times> rng) option" where
  "angle_loop a b g =
     (if a + b \<ge> 170 then
        (case choice angle_range g of
           Inl e \<Rightarrow> Some (Inl e)
         | Inr (a', g1) \<Rightarrow>
            (case choice angle_range g1 of
               Inl e \<Rightarrow> Some (Inl e)
             | Inr (b', g2) \<Rightarrow> angle_loop a' b' g2))
      else Some (Inr ((a, b), g)))"

definition angle_sum_stem :: "int \<Rightarrow> int \<Rightarrow> string" where
  "angle_sum_stem a b =
     kr_angle_sum_pre @ str_int a @ kr_deg_comma @ str_int b @ kr_angle_sum_post"

definition angle_sum_build :: "int \<Rightarrow> int \<Rightarrow> rng \<Rightarrow> ObjItem \<times> rng" where
  \<comment> \<open>lines 88 to 95: the item from the accepted pair\<close>
  "angle_sum_build a b g =
     (let c = 180 - (a + b) in
      case shuffle [str_int c, str_int (c + 5), str_int (c - 5), str_int (c + 10)] g of
        (choices', g') \<Rightarrow>
          (\<lparr>id' = ''AS-'' @ str_int a @ ''-'' @ str_int b, topic = ''triangle_angle_sum'',
            stem = angle_sum_stem a b, choices = choices', answer = VStr (str_int c),
            kind = ''MCQ'', points = 2\<rparr>, g'))"

definition gen_angle_sum_item :: "rng \<Rightarrow> (error + ObjItem \<times> rng) option" where
  "gen_angle_sum_item g =
     (case choice angle_range g of
        Inl e \<Rightarrow> Some (Inl e)
      | Inr (a, g1) \<Rightarrow>
         (case choice angle_range g1 of
            Inl e \<Rightarrow> Some (Inl e)
          | Inr (b, g2) \<Rightarrow>
             (case angle_loop a b g2 of
                None \<Rightarrow> None
              | Some (Inl e) \<Rightarrow> Some (Inl e)
              | Some (Inr ((a', b'), g3)) \<Rightarrow> Some (Inr (angle_sum_build a' b' g3)))))"

subsection \<open>Exterior angle\<close>

definition exterior_stem :: "int \<Rightarrow> int \<Rightarrow> string" where
  "exterior_stem x a = kr_exterior_pre @ str_int x @ kr_exterior_mid @ str_int a @ kr_exterior_post"

definition exterior_range :: "int list" where
  \<comment> \<open>\<^verbatim>\<open>range(100, 160, 5)\<close>\<close>
  "exterior_range = map (\<lambda>k. 100 + 5 * int k) [0..<12]"

definition remote_range :: "int list" where
  \<comment> \<open>\<^verbatim>\<open>range(20, 70, 5)\<close>\<close>
  "remote_range = map (\<lambda>k. 20 + 5 * int k) [0..<10]"

definition gen_exterior_angle_item :: "rng \<Rightarrow> error + ObjItem \<times> rng" where
  "gen_exterior_angle_item g =
     (case choice exterior_range g of
        Inl e \<Rightarrow> Inl e
      | Inr (x, g1) \<Rightarrow>
         (case choice remote_range g1 of
            Inl e \<Rightarrow> Inl e
          | Inr (a, g2) \<Rightarrow>
             (let b = x - a in
              case shuffle [str_int b, str_int (b + 5), str_int (b - 10), str_int (b + 15)] g2 of
                (choices', g3) \<Rightarrow>
                  Inr (\<lparr>id' = ''EX-'' @ str_int x @ ''-'' @ str_int a, topic = ''exterior_angle'',
                        stem = exterior_stem x a, choices = choices', answer = VStr (str_int b),
                        kind = ''MCQ'', points = 2\<rparr>, g3))))"

subsection \<open>Triangle classification\<close>

definition side_range :: "int list" where
  \<comment> \<open>\<^verbatim>\<open>range(3, 12)\<close>\<close>
  "side_range = map (\<lambda>k. 3 + int k) [0..<9]"

definition sample_sides :: "rng \<Rightarrow> error + (int \<times> int \<times> int) \<times> rng" where
  \<comment> \<open>\<^verbatim>\<open>a, b, c = sorted(random.sample(range(3, 12), 3))\<close>\<close>
  "sample_sides g =
     (case sample side_range 3 g of
        Inl e \<Rightarrow> Inl e
      | Inr (xs, g') \<Rightarrow>
         (case sort xs of
            [a, b, c] \<Rightarrow> Inr ((a, b, c), g')
          | _ \<Rightarrow> Inl ValueError))"

partial_function (option) sides_loop ::
  "int \<Rightarrow> int \<Rightarrow> int \<Rightarrow> rng \<Rightarrow> (error + (int \<times> int \<times> int) \<times> rng) option" where
  "sides_loop a b c g =
     (if a + b \<le> c then
        (case sample_sides g of
           Inl e \<Rightarrow> Some (Inl e)
         | Inr ((a', b', c'), g') \<Rightarrow> sides_loop a' b' c' g')
      else Some (Inr ((a, b, c), g)))"

definition classify_sides :: "int \<Rightarrow> int \<Rightarrow> int \<Rightarrow> string" where
  \<comment> \<open>lines 120 to 125\<close>
  "classify_sides a b c =
     (if a = b \<and> b = c then kr_equilateral
      else if a = b \<or> b = c then kr_isosceles
      else kr_scalene)"

definition sides_stem :: "int \<Rightarrow> int \<Rightarrow> int \<Rightarrow> string" where
  "sides_stem a b c =
     kr_sides_pre @ str_int a @ '', '' @ str_int b @ '', '' @ str_int c @ kr_sides_post"

text \<open>The two modes give the stem, the unshuffled choices and the answer.\<close>

definition sides_mode :: "rng \<Rightarrow> (error + (string \<times> string list \<times> string) \<times> rng) option" where
  "sides_mode g =
     (case sample_sides g of
        Inl e \<Rightarrow> Some (Inl e)
      | Inr ((a, b, c), g1) \<Rightarrow>
         (case sides_loop a b c g1 of
            None \<Rightarrow> None
          | Some (Inl e) \<Rightarrow> Some (Inl e)
          | Some (Inr ((a', b', c'), g2)) \<Rightarrow>
              Some (Inr ((sides_stem a' b' c',
                          [kr_equilateral, kr_isosceles, kr_right, kr_scalene],
                          classify_sides a' b' c'), g2))))"

definition classify_angle :: "int \<Rightarrow> string" where
  \<comment> \<open>lines 131 to 136\<close>
  "classify_angle A = (if A = 90 then kr_right else if A > 90 then kr_obtuse else kr_acute)"

definition angles_mode :: "rng \<Rightarrow> error + (string \<times> string list \<times> string) \<times> rng" where
  "angles_mode g =
     (case choice [30, 45, 60, 70, 80, 90, 100, 120] g of
        Inl e \<Rightarrow> Inl e
      | Inr (A, g1) \<Rightarrow>
          Inr ((kr_angles_pre @ str_int A @ kr_angles_post,
                [kr_acute, kr_right, kr_obtuse, kr_equilateral],
                classify_angle A), g1))"

definition triangle_types_build ::
  "string \<times> string list \<times> string \<Rightarrow> rng \<Rightarrow> error + ObjItem \<times> rng" where
  \<comment> \<open>lines 140 to 142: shuffle, then the random id\<close>
  "triangle_types_build sca g =
     (case sca of (stem', choices0, answer') \<Rightarrow>
        (case shuffle choices0 g of
           (choices', g1) \<Rightarrow>
             (case randint 1000 9999 g1 of
                Inl e \<Rightarrow> Inl e
              | Inr (n, g2) \<Rightarrow>
                  Inr (\<lparr>id' = ''TT-'' @ str_int n, topic = ''triangle_types'', stem = stem',
                        choices = choices', answer = VStr answer', kind = ''MCQ'',
                        points = 2\<rparr>, g2))))"

definition gen_triangle_types_item :: "rng \<Rightarrow> (error + ObjItem \<times> rng) option" where
  "gen_triangle_types_item g =
     (case choice [''sides'', ''angles''] g of
        Inl e \<Rightarrow> Some (Inl e)
      | Inr (mode, g1) \<Rightarrow>
         (if mode = ''sides'' then
            (case sides_mode g1 of
               None \<Rightarrow> None
             | Some (Inl e) \<Rightarrow> Some (Inl e)
             | Some (Inr (sca, g2)) \<Rightarrow> Some (triangle_types_build sca g2))
          else
            (case angles_mode g1 of
               Inl e \<Rightarrow> Some (Inl e)
             | Inr (sca, g2) \<Rightarrow> Some (triangle_types_build sca g2))))"

subsection \<open>Congruence criterion\<close>

definition options :: "string list" where
  "options = [''SSS'', ''SAS'', ''ASA'', ''AAS'', kr_hl]"

definition congruence_pattern :: "string \<Rightarrow> rng \<Rightarrow> error + (string \<times> string) \<times> rng" where
  \<comment> \<open>lines 148 to 159: the stem and the answer of a pattern\<close>
  "congruence_pattern pattern g =
     (if pattern = ''SSS'' then Inr ((kr_stem_sss, ''SSS''), g)
      else if pattern = ''SAS'' then Inr ((kr_stem_sas, ''SAS''), g)
      else if pattern = ''ASA'' then Inr ((kr_stem_nonincluded, ''AAS''), g)
      else (case choice [''ASA'', ''AAS''] g of
              Inl e \<Rightarrow> Inl e
            | Inr (ans, g') \<Rightarrow> Inr ((kr_stem_two_angles_side, ans), g')))"

definition gen_congruence_item :: "rng \<Rightarrow> error + ObjItem \<times> rng" where
  "gen_congruence_item g =
     (case choice (take 4 options) g of
        Inl e \<Rightarrow> Inl e
      | Inr (pattern, g1) \<Rightarrow>
         (case congruence_pattern pattern g1 of
            Inl e \<Rightarrow> Inl e
          | Inr ((stem', ans), g2) \<Rightarrow>
             (case shuffle (take 4 options @ [kr_undecidable]) g2 of
                (choices', g3) \<Rightarrow>
                  (case randint 1000 9999 g3 of
                     Inl e \<Rightarrow> Inl e
                   | Inr (n, g4) \<Rightarrow>
                       Inr (\<lparr>id' = ''CG-'' @ str_int n, topic = ''congruence'', stem = stem',
                             choices = choices', answer = VStr ans, kind = ''MCQ'',
                             points = 2\<rparr>, g4)))))"

subsection \<open>Similarity\<close>

definition similarity_stem :: "int \<Rightarrow> int \<Rightarrow> string" where
  "similarity_stem A B = kr_sim_pre @ str_int A @ kr_deg_comma @ str_int B @ kr_sim_post"

definition gen_similarity_item :: "rng \<Rightarrow> error + ObjItem \<times> rng" where
  "gen_similarity_item g =
     (case choice [30, 40, 50, 60] g of
        Inl e \<Rightarrow> Inl e
      | Inr (A, g1) \<Rightarrow>
         (case choice [40, 50, 60, 70] g1 of
            Inl e \<Rightarrow> Inl e
          | Inr (B, g2) \<Rightarrow>
             (case shuffle [kr_possible_aa, kr_impossible, kr_possible_sss, kr_possible_sas] g2 of
                (choices', g3) \<Rightarrow>
                  Inr (\<lparr>id' = ''SIM-'' @ str_int A @ ''-'' @ str_int B,
                        topic = ''similarity_basic'', stem = similarity_stem A B,
                        choices = choices', answer = VStr kr_possible_aa, kind = ''MCQ'',
                        points = 2\<rparr>, g3))))"

subsection \<open>The generator table and the Generate handler\<close>

definition TOPICS :: "(string \<times> string) list" where
  "TOPICS =
     [(kr_topic_angle_sum, ''triangle_angle_sum''),
      (kr_topic_exterior, ''exterior_angle''),
      (kr_topic_types, ''triangle_types''),
      (kr_topic_congruence, ''congruence''),
      (kr_topic_similarity, ''similarity_basic'')]"

definition GEN_FUNCS :: "(string \<times> (rng \<Rightarrow> (error + ObjItem \<times> rng) option)) list" where
  "GEN_FUNCS =
     [(''triangle_angle_sum'', gen_angle_sum_item),
      (''exterior_angle'', \<lambda>g. Some (gen_exterior_angle_item g)),
      (''triangle_types'', gen_triangle_types_item),
      (''congruence'', \<lambda>g. Some (gen_congruence_item g)),
      (''similarity_basic'', \<lambda>g. Some (gen_similarity_item g))]"

definition topic_keys :: "string list \<Rightarrow> string list" where
  \<comment> \<open>\<^verbatim>\<open>[k for t, k in TOPICS if t in topics_selected]\<close>\<close>
  "topic_keys topics_selected = map snd (filter (\<lambda>(t, k). t \<in> set topics_selected) TOPICS)"

text \<open>The loop of the handler, lines 255 to 258, with the items collected so far.\<close>

fun generate_items ::
  "string list \<Rightarrow> nat \<Rightarrow> ObjItem list \<Rightarrow> rng \<Rightarrow> (error + ObjItem list \<times> rng) option" where
  "generate_items tks 0 items g = Some (Inr (items, g))"
| "generate_items tks (Suc n) items g =
     (case choice tks g of
        Inl e \<Rightarrow> Some (Inl e)
      | Inr (tk, g1) \<Rightarrow>
         (case map_of GEN_FUNCS tk of
            None \<Rightarrow> Some (Inl KeyError)
          | Some gen \<Rightarrow>
             (case gen g1 of
                None \<Rightarrow> None
              | Some (Inl e) \<Rightarrow> Some (Inl e)
              | Some (Inr (item, g2)) \<Rightarrow> generate_items tks n (items @ [item]) g2)))"

section \<open>Session state and handlers\<close>

text \<open>
  A Python dict is an association list with distinct keys in insertion order (the type
  \<^typ>\<open>('k, 'v) alist\<close>): assigning to a key that is present replaces its value in
  place, assigning to a new key appends.
\<close>

type_synonym ('k, 'v) dict = "('k, 'v) alist"

definition dict_empty :: "('k, 'v) dict" where
  "dict_empty = DAList.empty"

definition dict_set :: "'k \<Rightarrow> 'v \<Rightarrow> ('k, 'v) dict \<Rightarrow> ('k, 'v) dict" where
  \<comment> \<open>\<^verbatim>\<open>d[k] = v\<close>\<close>
  "dict_set k v d = DAList.update k v d"

definition dict_get :: "('k, 'v) dict \<Rightarrow> 'k \<Rightarrow> 'v option" where
  \<comment> \<open>\<^verbatim>\<open>d.get(k)\<close>\<close>
  "dict_get d k = DAList.lookup d k"

definition dict_items :: "('k, 'v) dict \<Rightarrow> ('k \<times> 'v) list" where
  \<comment> \<open>\<^verbatim>\<open>d.items()\<close>: the entries in insertion order\<close>
  "dict_items d = DAList.impl_of d"

record dataframe =
  columns :: "string list"
  rows :: "pyval list list"

text \<open>The dict stored per graded item (lines 328 to 331) and the task of the rubric.\<close>

record response =
  r_response :: pyval
  r_correct :: bool
  r_score :: int
  r_answer :: pyval
  r_topic :: string

record PerfTask =
  task_id :: string
  task_topic :: string
  prompt :: string
  task_points :: int

record session =
  random_state :: rng
  students :: dataframe
  quiz_items :: "ObjItem list"
  responses :: "(string \<times> string, response) dict"
  rubric_scores :: "(string \<times> string, (string, pyval) dict) dict"
  widgets :: "string \<Rightarrow> pyval"

text \<open>
  The Generate handler (lines 253 to 259): seed the generator, run the loop, store the
  items. The seeding function of the library is the parameter \<open>seedf\<close>. When the loop
  raises, the session keeps its items; the model returns the error alone.
\<close>

definition generate_handler ::
  "(int \<Rightarrow> rng) \<Rightarrow> int \<Rightarrow> nat \<Rightarrow> string list \<Rightarrow> session \<Rightarrow> (error + session) option" where
  "generate_handler seedf seed n_items topics_selected s =
     (case generate_items (topic_keys topics_selected) n_items [] (seedf seed) of
        None \<Rightarrow> None
      | Some (Inl e) \<Rightarrow> Some (Inl e)
      | Some (Inr (items, g)) \<Rightarrow> Some (Inr (s\<lparr>random_state := g, quiz_items := items\<rparr>)))"

subsection \<open>Auto-grading\<close>

text \<open>
  The handler of the Auto-grade button (lines 318 to 332), which the page offers when the
  item list is not empty. \<open>sid\<close> is the identifier the page looked up for the selected
  student; \<open>widgets s key\<close> is \<^verbatim>\<open>st.session_state.get(key)\<close>, None when nothing is stored.
\<close>

definition grade_item ::
  "string \<Rightarrow> (string \<Rightarrow> pyval) \<Rightarrow> (int \<times> int) \<times> (string \<times> string, response) dict \<Rightarrow>
   ObjItem \<Rightarrow> (int \<times> int) \<times> (string \<times> string, response) dict" where
  \<comment> \<open>the body of the loop, lines 322 to 331; the state is (total, max_total) and the store\<close>
  "grade_item sid w st item =
     (case st of ((total', max_total), resps) \<Rightarrow>
        (let resp = w (''resp_'' @ id' item);
             correct = (str resp = str (answer item));
             score = (if correct then points item else 0)
         in ((total' + score, max_total + points item),
             dict_set (sid, id' item)
               \<lparr>r_response = resp, r_correct = correct, r_score = score,
                r_answer = answer item, r_topic = topic item\<rparr> resps)))"

definition auto_grade :: "string \<Rightarrow> session \<Rightarrow> (int \<times> int) \<times> session" where
  \<comment> \<open>returns the reported (total, max_total) and the session with the updated store\<close>
  "auto_grade sid s =
     (case foldl (grade_item sid (widgets s)) ((0, 0), responses s) (quiz_items s) of
        (report, resps) \<Rightarrow> (report, s\<lparr>responses := resps\<rparr>))"

subsection \<open>Rubric save\<close>

definition RUBRIC_CRITERIA :: "string list" where
  \<comment> \<open>the keys of the four criteria, in order\<close>
  "RUBRIC_CRITERIA = [''concept'', ''procedure'', ''reasoning'', ''communication'']"

definition rubric_record :: "(string \<Rightarrow> int) \<Rightarrow> string \<Rightarrow> PerfTask \<Rightarrow> (string, pyval) dict" where
  \<comment> \<open>\<^verbatim>\<open>{**rubric_levels, "notes": notes, "task_points": task_obj.points}\<close>\<close>
  "rubric_record sliders notes task_obj =
     dict_set ''task_points'' (VInt (task_points task_obj))
       (dict_set ''notes'' (VStr notes)
          (foldl (\<lambda>d crit. dict_set crit (VInt (sliders crit)) d) dict_empty RUBRIC_CRITERIA))"

definition rubric_save ::
  "string \<Rightarrow> PerfTask \<Rightarrow> (string \<Rightarrow> int) \<Rightarrow> string \<Rightarrow> session \<Rightarrow> session" where
  "rubric_save sid2 task_obj sliders notes s =
     s\<lparr>rubric_scores :=
         dict_set (sid2, task_id task_obj) (rubric_record sliders notes task_obj)
           (rubric_scores s)\<rparr>"

subsection \<open>Roster upload\<close>

definition lower_char :: "char \<Rightarrow> char" where
  "lower_char c =
     (case map_of (zip ''ABCDEFGHIJKLMNOPQRSTUVWXYZ'' ''abcdefghijklmnopqrstuvwxyz'') c of
        None \<Rightarrow> c
      | Some c' \<Rightarrow> c')"

definition lower :: "string \<Rightarrow> string" where
  \<comment> \<open>\<^verbatim>\<open>str.lower\<close> on ASCII letters; other bytes are kept\<close>
  "lower s = map lower_char s"

definition cols_lower :: "string list \<Rightarrow> (string, string) dict" where
  \<comment> \<open>\<^verbatim>\<open>{c.lower(): c for c in df.columns}\<close>\<close>
  "cols_lower cols = foldl (\<lambda>d c. dict_set (lower c) c d) dict_empty cols"

definition column_at :: "string list \<Rightarrow> nat \<Rightarrow> error + string" where
  \<comment> \<open>\<^verbatim>\<open>list(df.columns)[i]\<close>\<close>
  "column_at cols i = (if i < length cols then Inr (cols ! i) else Inl IndexError)"

definition py_or :: "string option \<Rightarrow> error + string \<Rightarrow> error + string" where
  \<comment> \<open>\<^verbatim>\<open>v or rest\<close>: \<open>v\<close> when it is neither None nor the empty string\<close>
  "py_or v rest = (case v of None \<Rightarrow> rest | Some c \<Rightarrow> if c \<noteq> [] then Inr c else rest)"

definition pick_column :: "string list \<Rightarrow> string \<Rightarrow> string \<Rightarrow> nat \<Rightarrow> error + string" where
  \<comment> \<open>\<^verbatim>\<open>cols_lower.get(k1) or cols_lower.get(k2) or list(df.columns)[i]\<close>\<close>
  "pick_column cols k1 k2 i =
     (let d = cols_lower cols in
      py_or (dict_get d k1) (py_or (dict_get d k2) (column_at cols i)))"

definition rename :: "(string, string) dict \<Rightarrow> dataframe \<Rightarrow> dataframe" where
  "rename m df =
     df\<lparr>columns := map (\<lambda>c. case dict_get m c of None \<Rightarrow> c | Some c' \<Rightarrow> c') (columns df)\<rparr>"

definition select_columns :: "string list \<Rightarrow> dataframe \<Rightarrow> error + dataframe" where
  \<comment> \<open>\<^verbatim>\<open>df[[...]]\<close>: KeyError for an absent label, every column of a repeated label\<close>
  "select_columns labels df =
     (if \<not> list_all (\<lambda>l. l \<in> set (columns df)) labels then Inl KeyError
      else
        (let idx = concat (map (\<lambda>l. filter (\<lambda>i. columns df ! i = l) [0..<length (columns df)])
                            labels)
         in Inr \<lparr>columns = map (\<lambda>i. columns df ! i) idx,
                 rows = map (\<lambda>r. map (\<lambda>i. r ! i) idx) (rows df)\<rparr>))"

definition load_roster :: "dataframe \<Rightarrow> error + dataframe" where
  \<comment> \<open>lines 274 to 277\<close>
  "load_roster df =
     (case pick_column (columns df) ''id'' kr_hakbeon 0 of
        Inl e \<Rightarrow> Inl e
      | Inr id_col \<Rightarrow>
         (case pick_column (columns df) kr_ireum ''name'' 1 of
            Inl e \<Rightarrow> Inl e
          | Inr name_col \<Rightarrow>
              select_columns [''ID'', kr_ireum]
                (rename (dict_set name_col kr_ireum (dict_set id_col ''ID'' dict_empty)) df)))"

definition roster_upload :: "dataframe option \<Rightarrow> session \<Rightarrow> error + session" where
  \<comment> \<open>lines 271 to 278; the argument is what \<^verbatim>\<open>pd.read_csv\<close> returned, if a file was given\<close>
  "roster_upload file s =
     (case file of
        None \<Rightarrow> Inr s
      | Some df \<Rightarrow>
         (case load_roster df of
            Inl e \<Rightarrow> Inl e
          | Inr df' \<Rightarrow> Inr (s\<lparr>students := df'\<rparr>)))"

section \<open>The initial session\<close>

text \<open>
  Lines 220 to 236: the three-row sample roster and empty stores. The generator starts in
  a state the program does not choose.
\<close>

definition init_session :: "rng \<Rightarrow> session" where
  "init_session g =
     \<lparr>random_state = g,
      students = \<lparr>columns = [''ID'', kr_ireum],
                  rows = [[VStr ''S001'', VStr kr_name_hong],
                          [VStr ''S002'', VStr kr_name_kim],
                          [VStr ''S003'', VStr kr_name_lee]]\<rparr>,
      quiz_items = [], responses = dict_empty, rubric_scores = dict_empty,
      widgets = (\<lambda>key. VNone)\<rparr>"

section \<open>Predicates of the statements\<close>

text \<open>An item whose choice list is not empty and holds its canonical answer.\<close>

definition mcq_ok :: "ObjItem \<Rightarrow> bool" where
  "mcq_ok it =
     (choices it \<noteq> [] \<and> (case answer it of VStr a \<Rightarrow> a \<in> set (choices it) | _ \<Rightarrow> False))"

text \<open>
  The re-sampling loops end when a draw is accepted. \<open>angle_ok d p\<close> says that the two
  draws at positions \<open>p\<close> and \<open>p + 1\<close> of the sequence \<open>d\<close> give an accepted pair of angles,
  \<open>sides_ok d p\<close> that the three draws from position \<open>p\<close> give an accepted triple of sides.
  A sequence is fair when, from every position, each loop meets an accepted draw.
\<close>

definition angle_ok :: "(nat \<Rightarrow> nat) \<Rightarrow> nat \<Rightarrow> bool" where
  "angle_ok d p =
     (case choice angle_range \<lparr>draws = d, pos = p\<rparr> of
        Inl e \<Rightarrow> False
      | Inr (a, g1) \<Rightarrow>
         (case choice angle_range g1 of
            Inl e \<Rightarrow> False
          | Inr (b, g2) \<Rightarrow> a + b < 170))"

definition sides_ok :: "(nat \<Rightarrow> nat) \<Rightarrow> nat \<Rightarrow> bool" where
  "sides_ok d p =
     (case sample_sides \<lparr>draws = d, pos = p\<rparr> of
        Inl e \<Rightarrow> False
      | Inr ((a, b, c), g') \<Rightarrow> c < a + b)"

definition fair :: "(nat \<Rightarrow> nat) \<Rightarrow> bool" where
  "fair d = ((\<forall>p. \<exists>k. angle_ok d (p + 2 * k)) \<and> (\<forall>p. \<exists>k. sides_ok d (p + 3 * k)))"

text \<open>
  For the stores: the entries of a dict after a list of assignments, and the record that
  auto-grading stores for an item (lines 322 to 331).
\<close>

definition apply_updates :: "('k \<times> 'v) list \<Rightarrow> ('k \<times> 'v) list \<Rightarrow> ('k \<times> 'v) list" where
  "apply_updates l us = foldl (\<lambda>l (k, v). AList.update k v l) l us"

definition grade_record :: "(string \<Rightarrow> pyval) \<Rightarrow> ObjItem \<Rightarrow> response" where
  "grade_record w item =
     (let resp = w (''resp_'' @ id' item);
          correct = (str resp = str (answer item))
      in \<lparr>r_response = resp, r_correct = correct,
          r_score = (if correct then points item else 0),
          r_answer = answer item, r_topic = topic item\<rparr>)"

section \<open>Concrete generator states\<close>

text \<open>A generator state for concrete runs: the listed raw draws, then zeros.\<close>

definition tape :: "nat list \<Rightarrow> rng" where
  "tape xs = \<lparr>draws = (\<lambda>i. if i < length xs then xs ! i else 0), pos = 0\<rparr>"

section \<open>Properties of the random primitives\<close>

lemma choice_nonempty:
  "seq \<noteq> [] \<Longrightarrow>
   choice seq g = Inr (seq ! (draws g (pos g) mod length seq), g\<lparr>pos := Suc (pos g)\<rparr>)"
  by (simp add: choice_def randbelow_def)

lemma choice_Inr_mem: "choice seq g = Inr (x, g') \<Longrightarrow> x \<in> set seq"
  by (cases "seq = []") (auto simp: choice_def randbelow_def)

lemma choice_total:
  assumes "seq \<noteq> []"
  shows "\<exists>x g'. choice seq g = Inr (x, g') \<and> x \<in> set seq \<and> draws g' = draws g
           \<and> pos g' = Suc (pos g)"
  using assms by (simp add: choice_nonempty)

section \<open>The angle-sum generator\<close>

lemma angle_range_nonempty: "angle_range \<noteq> []"
  by (simp add: angle_range_def)

lemma angle_loop_accepts:
  assumes "angle_loop a b g = Some r" and "a \<in> set angle_range" and "b \<in> set angle_range"
  shows "\<exists>a' b' g'. r = Inr ((a', b'), g') \<and> a' \<in> set angle_range \<and> b' \<in> set angle_range
           \<and> a' + b' < 170"
proof -
  let ?P = "\<lambda>(a::int) (b::int) (g::rng) r. a \<in> set angle_range \<longrightarrow> b \<in> set angle_range \<longrightarrow>
     (\<exists>a' b' g'. r = Inr ((a', b'), g') \<and> a' \<in> set angle_range \<and> b' \<in> set angle_range
           \<and> a' + b' < 170)"
  have "?P a b g r"
  proof (rule angle_loop.raw_induct[where P = ?P, OF _ assms(1)], goal_cases)
    case (1 loop a b g r)
    show ?case
    proof (cases "170 \<le> a + b")
      case False
      with 1(2) show ?thesis by auto
    next
      case True
      obtain a' g1 where c1: "choice angle_range g = Inr (a', g1)"
        and a': "a' \<in> set angle_range"
        using choice_total[OF angle_range_nonempty] by blast
      obtain b' g2 where c2: "choice angle_range g1 = Inr (b', g2)"
        and b': "b' \<in> set angle_range"
        using choice_total[OF angle_range_nonempty] by blast
      from True 1(2) have l: "loop a' b' g2 = Some r"
        by (simp add: c1 c2)
      from 1(1)[OF l] a' b' show ?thesis by blast
    qed
  qed
  with assms show ?thesis by blast
qed

text \<open>
  C1. Every item the angle-sum generator returns comes from two angles \<open>a\<close> and \<open>b\<close> of the
  sampled range \<^verbatim>\<open>range(20, 121, 5)\<close> whose sum is at most 169, and its canonical answer is
  the decimal string of \<open>180 - (a + b)\<close>. The generator never returns an error.
\<close>

theorem gen_angle_sum_item_correct:
  assumes "gen_angle_sum_item g = Some r"
  shows "\<exists>a b it g'. r = Inr (it, g') \<and> a \<in> set angle_range \<and> b \<in> set angle_range
           \<and> a + b \<le> 169
           \<and> id' it = ''AS-'' @ str_int a @ ''-'' @ str_int b
           \<and> stem it = angle_sum_stem a b
           \<and> answer it = VStr (str_int (180 - (a + b)))"
proof -
  obtain a0 g1 where c1: "choice angle_range g = Inr (a0, g1)" and a0: "a0 \<in> set angle_range"
    using choice_total[OF angle_range_nonempty] by blast
  obtain b0 g2 where c2: "choice angle_range g1 = Inr (b0, g2)" and b0: "b0 \<in> set angle_range"
    using choice_total[OF angle_range_nonempty] by blast
  from assms obtain q where
    l: "angle_loop a0 b0 g2 = Some q" and
    r: "r = (case q of Inl e \<Rightarrow> Inl e | Inr ((a', b'), g3) \<Rightarrow> Inr (angle_sum_build a' b' g3))"
    by (auto simp: gen_angle_sum_item_def c1 c2 split: sum.splits option.splits)
  from angle_loop_accepts[OF l a0 b0] obtain a b g3 where
    q: "q = Inr ((a, b), g3)" and ab: "a \<in> set angle_range" "b \<in> set angle_range" "a + b < 170"
    by blast
  obtain it g' where b: "angle_sum_build a b g3 = (it, g')" by (cases "angle_sum_build a b g3")
  then have "id' it = ''AS-'' @ str_int a @ ''-'' @ str_int b" "stem it = angle_sum_stem a b"
    "answer it = VStr (str_int (180 - (a + b)))"
    by (auto simp: angle_sum_build_def Let_def split: prod.splits)
  with q r b ab show ?thesis by (intro exI[of _ a] exI[of _ b]) auto
qed

theorem gen_angle_sum_item_correct_witness:
  "\<exists>r. gen_angle_sum_item (tape [20, 20, 3, 4]) = Some r \<and>
     (\<exists>a b it g'. r = Inr (it, g') \<and> a \<in> set angle_range \<and> b \<in> set angle_range
           \<and> a + b \<le> 169
           \<and> id' it = ''AS-'' @ str_int a @ ''-'' @ str_int b
           \<and> stem it = angle_sum_stem a b
           \<and> answer it = VStr (str_int (180 - (a + b))))"
proof -
  have "\<exists>r. gen_angle_sum_item (tape [20, 20, 3, 4]) = Some r"
    by (simp add: gen_angle_sum_item_def angle_loop.simps choice_def randbelow_def tape_def angle_range_def split: prod.splits)
  then obtain r where h: "gen_angle_sum_item (tape [20, 20, 3, 4]) = Some r" ..
  from gen_angle_sum_item_correct[OF h] h show ?thesis by blast
qed

lemma shuffle_cases: "\<exists>x' g'. shuffle x g = (x', g')"
  by (cases "shuffle x g") simp

lemma randint_id_total: "\<exists>n g'. randint 1000 9999 g = Inr (n, g') \<and> 1000 \<le> n \<and> n \<le> 9999"
  by (auto simp: randint_def randbelow_def)

lemma shuffle_from_mset:
  "i < length x \<Longrightarrow> mset (fst (shuffle_from i x g)) = mset x"
proof (induction i arbitrary: x g)
  case 0
  then show ?case by simp
next
  case (Suc i)
  let ?j = "draws g (pos g) mod (Suc i + 1)"
  let ?x' = "x[Suc i := x ! ?j, ?j := x ! Suc i]"
  have j: "?j < length x" using Suc.prems
    by (metis Suc_eq_plus1 Suc_leI le_trans less_Suc_eq_le mod_less_divisor not_less zero_less_Suc)
  have "mset ?x' = mset x" using Suc.prems j by (simp add: mset_swap)
  moreover have "i < length ?x'" using Suc.prems by simp
  ultimately show ?case using Suc.IH[of ?x'] by (simp add: randbelow_def)
qed

lemma shuffle_mset: "mset (fst (shuffle x g)) = mset x"
proof (cases "x = []")
  case True
  then show ?thesis by (simp add: shuffle_def)
next
  case False
  then have "length x - 1 < length x" by (cases x) simp_all
  then show ?thesis by (simp add: shuffle_def shuffle_from_mset)
qed

lemma shuffle_perm: "shuffle x g = (x', g') \<Longrightarrow> mset x' = mset x"
  using shuffle_mset[of x g] by simp

section \<open>The congruence generator\<close>

lemma congruence_pattern_cases:
  assumes "pattern \<in> set (take 4 options)"
  shows "\<exists>st ans g'. congruence_pattern pattern g = Inr ((st, ans), g') \<and>
           ((st = kr_stem_sss \<and> ans = ''SSS'') \<or> (st = kr_stem_sas \<and> ans = ''SAS'') \<or>
            (st = kr_stem_nonincluded \<and> ans = ''AAS'') \<or>
            (st = kr_stem_two_angles_side \<and> (ans = ''ASA'' \<or> ans = ''AAS'')))"
proof -
  from assms consider "pattern = ''SSS''" | "pattern = ''SAS''" | "pattern = ''ASA''"
    | "pattern = ''AAS''"
    by (auto simp: options_def)
  then show ?thesis
  proof cases
    case 4
    have "\<exists>ans g'. choice [''ASA'', ''AAS''] g = Inr (ans, g') \<and> ans \<in> set [''ASA'', ''AAS'']"
      using choice_total[of "[''ASA'', ''AAS'']" g] by blast
    then obtain ans g' where c: "choice [''ASA'', ''AAS''] g = Inr (ans, g')"
      and a: "ans = ''ASA'' \<or> ans = ''AAS''" by auto
    with 4 show ?thesis by (simp add: congruence_pattern_def)
  qed (simp_all add: congruence_pattern_def)
qed

lemma congruence_stems_distinct:
  "kr_stem_nonincluded \<noteq> kr_stem_sss" "kr_stem_nonincluded \<noteq> kr_stem_sas"
  "kr_stem_nonincluded \<noteq> kr_stem_two_angles_side"
  "kr_stem_two_angles_side \<noteq> kr_stem_sss" "kr_stem_two_angles_side \<noteq> kr_stem_sas"
  by (simp_all add: kr_stem_nonincluded_def kr_stem_sss_def kr_stem_sas_def
      kr_stem_two_angles_side_def)

lemma gen_congruence_item_cases:
  "\<exists>it g'. gen_congruence_item g = Inr (it, g') \<and>
      ((stem it = kr_stem_sss \<and> answer it = VStr ''SSS'') \<or>
       (stem it = kr_stem_sas \<and> answer it = VStr ''SAS'') \<or>
       (stem it = kr_stem_nonincluded \<and> answer it = VStr ''AAS'') \<or>
       (stem it = kr_stem_two_angles_side \<and>
          (answer it = VStr ''ASA'' \<or> answer it = VStr ''AAS''))) \<and>
      mset (choices it) = mset (take 4 options @ [kr_undecidable]) \<and>
      kind it = ''MCQ'' \<and> points it = 2"
proof -
  have ne: "take 4 options \<noteq> []" by (simp add: options_def)
  obtain pattern g1 where c: "choice (take 4 options) g = Inr (pattern, g1)"
    and p: "pattern \<in> set (take 4 options)"
    using choice_total[OF ne] by blast
  from congruence_pattern_cases[OF p] obtain st ans g2 where
    cp: "congruence_pattern pattern g1 = Inr ((st, ans), g2)" and
    sa: "(st = kr_stem_sss \<and> ans = ''SSS'') \<or> (st = kr_stem_sas \<and> ans = ''SAS'') \<or>
         (st = kr_stem_nonincluded \<and> ans = ''AAS'') \<or>
         (st = kr_stem_two_angles_side \<and> (ans = ''ASA'' \<or> ans = ''AAS''))"
    by blast
  obtain ch g3 where sh: "shuffle (take 4 options @ [kr_undecidable]) g2 = (ch, g3)"
    using shuffle_cases by blast
  obtain n g4 where ri: "randint 1000 9999 g3 = Inr (n, g4)"
    using randint_id_total by blast
  from sa shuffle_perm[OF sh] show ?thesis
    by (simp add: gen_congruence_item_def c cp sh ri)
qed

text \<open>
  C3, as stated, fails: no run of the congruence generator gives an item whose stem is the
  "two angles and a side not between them" pattern and whose canonical answer is ASA.
\<close>

theorem congruence_nonincluded_never_ASA:
  "\<not> (\<exists>g it g'. gen_congruence_item g = Inr (it, g') \<and> stem it = kr_stem_nonincluded \<and>
        answer it = VStr ''ASA'')"
proof
  assume "\<exists>g it g'. gen_congruence_item g = Inr (it, g') \<and> stem it = kr_stem_nonincluded \<and>
        answer it = VStr ''ASA''"
  then obtain g it g' where h: "gen_congruence_item g = Inr (it, g')"
    "stem it = kr_stem_nonincluded" "answer it = VStr ''ASA''" by blast
  with gen_congruence_item_cases[of g] congruence_stems_distinct show False by auto
qed

lemma congruence_tape_nonincluded:
  "\<exists>it g'. gen_congruence_item (tape [2]) = Inr (it, g') \<and> stem it = kr_stem_nonincluded"
  by (simp add: gen_congruence_item_def congruence_pattern_def choice_def randbelow_def
      randint_def tape_def options_def split: prod.splits)

lemma congruence_tape_broad_ASA:
  "\<exists>it g'. gen_congruence_item (tape [3, 0]) = Inr (it, g') \<and>
     stem it = kr_stem_two_angles_side \<and> answer it = VStr ''ASA''"
  by (simp add: gen_congruence_item_def congruence_pattern_def choice_def randbelow_def
      randint_def tape_def options_def split: prod.splits)

lemma congruence_tape_broad_AAS:
  "\<exists>it g'. gen_congruence_item (tape [3, 1]) = Inr (it, g') \<and>
     stem it = kr_stem_two_angles_side \<and> answer it = VStr ''AAS''"
  by (simp add: gen_congruence_item_def congruence_pattern_def choice_def randbelow_def
      randint_def tape_def options_def split: prod.splits)

text \<open>
  C3, amended. For the stem "two angles and a side not between them" the canonical answer
  is always AAS. For the broader stem "two angles and one side" the answer is ASA or AAS,
  chosen by a random draw, and both occur.
\<close>

theorem congruence_two_angle_answers:
  "(\<forall>g it g'. gen_congruence_item g = Inr (it, g') \<longrightarrow>
      (stem it = kr_stem_nonincluded \<longrightarrow> answer it = VStr ''AAS'') \<and>
      (stem it = kr_stem_two_angles_side \<longrightarrow>
         answer it = VStr ''ASA'' \<or> answer it = VStr ''AAS'')) \<and>
   (\<exists>g it g'. gen_congruence_item g = Inr (it, g') \<and> stem it = kr_stem_two_angles_side \<and>
      answer it = VStr ''ASA'') \<and>
   (\<exists>g it g'. gen_congruence_item g = Inr (it, g') \<and> stem it = kr_stem_two_angles_side \<and>
      answer it = VStr ''AAS'')"
proof (intro conjI allI impI)
  fix g it g'
  assume h: "gen_congruence_item g = Inr (it, g')"
  {
    assume "stem it = kr_stem_nonincluded"
    with h gen_congruence_item_cases[of g] congruence_stems_distinct
    show "answer it = VStr ''AAS''" by auto
  }
  {
    assume "stem it = kr_stem_two_angles_side"
    with h gen_congruence_item_cases[of g] congruence_stems_distinct
    show "answer it = VStr ''ASA'' \<or> answer it = VStr ''AAS''" by auto
  }
next
  show "\<exists>g it g'. gen_congruence_item g = Inr (it, g') \<and> stem it = kr_stem_two_angles_side \<and>
      answer it = VStr ''ASA''"
    using congruence_tape_broad_ASA by blast
next
  show "\<exists>g it g'. gen_congruence_item g = Inr (it, g') \<and> stem it = kr_stem_two_angles_side \<and>
      answer it = VStr ''AAS''"
    using congruence_tape_broad_AAS by blast
qed

theorem congruence_two_angle_answers_witness:
  "\<exists>it g'. gen_congruence_item (tape [2]) = Inr (it, g') \<and> stem it = kr_stem_nonincluded \<and>
     answer it = VStr ''AAS''"
proof -
  from congruence_tape_nonincluded obtain it g' where
    h: "gen_congruence_item (tape [2]) = Inr (it, g')" "stem it = kr_stem_nonincluded"
    by blast
  with congruence_two_angle_answers have "answer it = VStr ''AAS''" by blast
  with h show ?thesis by blast
qed

section \<open>The similarity generator\<close>

text \<open>
  C10. The similarity generator always returns an item, and its canonical answer is the
  constant string "possible (AA)", whatever the two sampled angles are.
\<close>

theorem gen_similarity_item_answer:
  "\<exists>it g'. gen_similarity_item g = Inr (it, g') \<and> answer it = VStr kr_possible_aa"
  by (simp add: gen_similarity_item_def choice_def split: prod.splits)

section \<open>Sampling without replacement and the side-length loop\<close>

lemma sample_from_distinct:
  assumes "\<forall>i<m. \<forall>i'<m. i \<noteq> i' \<longrightarrow> pool ! i \<noteq> pool ! i'" and "k \<le> m"
    and "m \<le> length pool"
  shows "distinct (fst (sample_from k m pool g)) \<and>
         (\<forall>x \<in> set (fst (sample_from k m pool g)). \<exists>i<m. x = pool ! i) \<and>
         length (fst (sample_from k m pool g)) = k"
  using assms
proof (induction k arbitrary: m pool g)
  case 0
  then show ?case by simp
next
  case (Suc k)
  from Suc.prems(2) have m: "0 < m" by simp
  let ?j = "draws g (pos g) mod m"
  let ?g1 = "g\<lparr>pos := Suc (pos g)\<rparr>"
  let ?pool' = "pool[?j := pool ! (m - 1)]"
  let ?rest = "fst (sample_from k (m - 1) ?pool' ?g1)"
  have j: "?j < m" using m by simp
  have inj: "\<And>i i'. i < m \<Longrightarrow> i' < m \<Longrightarrow> i \<noteq> i' \<Longrightarrow> pool ! i \<noteq> pool ! i'"
    using Suc.prems(1) by blast
  define f where "f i = (if i = ?j then m - 1 else i)" for i
  have nth': "?pool' ! i = pool ! f i" if "i < m - 1" for i
    using that j Suc.prems(3) by (simp add: f_def nth_list_update)
  have f_lt: "f i < m" if "i < m - 1" for i using that by (auto simp: f_def)
  have f_ne: "f i \<noteq> ?j" if "i < m - 1" for i using that by (auto simp: f_def)
  have f_inj: "f i \<noteq> f i'" if "i < m - 1" "i' < m - 1" "i \<noteq> i'" for i i'
    using that by (auto simp: f_def)
  have inj': "\<forall>i<m - 1. \<forall>i'<m - 1. i \<noteq> i' \<longrightarrow> ?pool' ! i \<noteq> ?pool' ! i'"
    using nth' f_lt f_inj inj by simp
  have "k \<le> m - 1" "m - 1 \<le> length ?pool'" using Suc.prems by simp_all
  from Suc.IH[OF inj' this] have
    d: "distinct ?rest" and
    s: "\<forall>x \<in> set ?rest. \<exists>i<m - 1. x = ?pool' ! i" and
    l: "length ?rest = k" by blast+
  have notin: "pool ! ?j \<notin> set ?rest"
  proof
    assume "pool ! ?j \<in> set ?rest"
    with s obtain i where i: "i < m - 1" "pool ! ?j = ?pool' ! i" by blast
    with nth'[OF i(1)] have "pool ! ?j = pool ! f i" by simp
    with inj[OF j f_lt[OF i(1)]] f_ne[OF i(1)] show False by auto
  qed
  have sub: "\<forall>x \<in> set ?rest. \<exists>i<m. x = pool ! i"
  proof
    fix x assume "x \<in> set ?rest"
    with s obtain i where i: "i < m - 1" "x = ?pool' ! i" by blast
    then show "\<exists>i<m. x = pool ! i" using nth' f_lt by auto
  qed
  have eq: "fst (sample_from (Suc k) m pool g) = pool ! ?j # ?rest"
    by (simp add: randbelow_def split: prod.splits)
  show ?case unfolding eq using d notin sub l j by auto
qed

lemma side_range_distinct: "distinct side_range" "length side_range = 9"
  by (simp_all add: side_range_def distinct_map inj_on_def)

lemma length3_conv: "length ys = 3 \<Longrightarrow> \<exists>a b c. ys = [a, b, c]"
  by (auto simp: numeral_3_eq_3 length_Suc_conv)

lemma sorted3:
  fixes xs :: "int list"
  assumes "distinct xs" "length xs = 3"
  shows "\<exists>a b c. sort xs = [a, b, c] \<and> a < b \<and> b < c \<and> set xs = {a, b, c}"
proof -
  have l: "length (sort xs) = 3" using assms by simp
  from length3_conv[OF l] obtain a b c where s: "sort xs = [a, b, c]" by blast
  have "sorted (sort xs)" "distinct (sort xs)" "set (sort xs) = set xs" using assms by simp_all
  with s show ?thesis by auto
qed

lemma sample_sides_strict:
  "\<exists>a b c g'. sample_sides g = Inr ((a, b, c), g') \<and> a < b \<and> b < c \<and>
     {a, b, c} \<subseteq> set side_range"
proof -
  obtain xs g' where sf: "sample_from 3 (length side_range) side_range g = (xs, g')"
    by (cases "sample_from 3 (length side_range) side_range g")
  have "\<forall>i<length side_range. \<forall>i'<length side_range. i \<noteq> i' \<longrightarrow> side_range ! i \<noteq> side_range ! i'"
    using side_range_distinct(1) by (simp add: distinct_conv_nth)
  from sample_from_distinct[OF this, of 3 g] sf side_range_distinct(2)
  have d: "distinct xs" "length xs = 3" and
    nth: "\<forall>x \<in> set xs. \<exists>i<length side_range. x = side_range ! i"
    by simp_all
  have sub: "set xs \<subseteq> set side_range"
  proof
    fix x assume "x \<in> set xs"
    with nth obtain i where "i < length side_range" "x = side_range ! i" by blast
    then show "x \<in> set side_range" by simp
  qed
  from sorted3[OF d] obtain a b c where "sort xs = [a, b, c]" "a < b" "b < c" "set xs = {a, b, c}"
    by blast
  with sub sf side_range_distinct(2) show ?thesis
    by (simp add: sample_sides_def sample_def)
qed

lemma sides_loop_accepts:
  assumes "sides_loop a b c g = Some r" and "a < b" and "b < c"
  shows "\<exists>a' b' c' g'. r = Inr ((a', b', c'), g') \<and> a' < b' \<and> b' < c' \<and> c' < a' + b'"
proof -
  let ?P = "\<lambda>(a::int) (b::int) (c::int) (g::rng) r. a < b \<longrightarrow> b < c \<longrightarrow>
     (\<exists>a' b' c' g'. r = Inr ((a', b', c'), g') \<and> a' < b' \<and> b' < c' \<and> c' < a' + b')"
  have "?P a b c g r"
  proof (rule sides_loop.raw_induct[where P = ?P, OF _ assms(1)], goal_cases)
    case (1 loop a b c g r)
    show ?case
    proof (cases "a + b \<le> c")
      case False
      with 1(2) show ?thesis by auto
    next
      case True
      obtain a' b' c' g' where ss: "sample_sides g = Inr ((a', b', c'), g')"
        and lt: "a' < b'" "b' < c'"
        using sample_sides_strict by blast
      from True 1(2) have l: "loop a' b' c' g' = Some r" by (simp add: ss)
      from 1(1)[OF l] lt show ?thesis by blast
    qed
  qed
  with assms show ?thesis by blast
qed

lemma classify_sides_strict: "a < b \<Longrightarrow> b < c \<Longrightarrow> classify_sides a b c = kr_scalene"
  by (simp add: classify_sides_def)

lemma sides_mode_scalene:
  assumes "sides_mode g = Some r"
  shows "\<exists>a b c g'. r = Inr ((sides_stem a b c,
             [kr_equilateral, kr_isosceles, kr_right, kr_scalene], kr_scalene), g') \<and>
           a < b \<and> b < c \<and> c < a + b"
proof -
  obtain a0 b0 c0 g1 where ss: "sample_sides g = Inr ((a0, b0, c0), g1)"
    and lt: "a0 < b0" "b0 < c0"
    using sample_sides_strict by blast
  from assms obtain q where l: "sides_loop a0 b0 c0 g1 = Some q"
    by (auto simp: sides_mode_def ss split: option.splits)
  from sides_loop_accepts[OF l lt] obtain a b c g2 where
    q: "q = Inr ((a, b, c), g2)" and abc: "a < b" "b < c" "c < a + b" by blast
  from assms l q have "r = Inr ((sides_stem a b c,
      [kr_equilateral, kr_isosceles, kr_right, kr_scalene], classify_sides a b c), g2)"
    by (simp add: sides_mode_def ss)
  with abc show ?thesis by (auto simp: classify_sides_strict)
qed

lemma kr_scalene_distinct: "kr_scalene \<noteq> kr_equilateral" "kr_scalene \<noteq> kr_isosceles"
  by (simp_all add: kr_scalene_def kr_equilateral_def kr_isosceles_def)

section \<open>The re-sampling loops end on a fair sequence of draws\<close>

lemma angle_ok_here:
  "angle_ok (draws g) (pos g) =
     (case choice angle_range g of
        Inl e \<Rightarrow> False
      | Inr (a, g1) \<Rightarrow>
         (case choice angle_range g1 of
            Inl e \<Rightarrow> False
          | Inr (b, g2) \<Rightarrow> a + b < 170))"
  by (cases g) (simp add: angle_ok_def)

lemma angle_loop_accept: "a + b < 170 \<Longrightarrow> angle_loop a b g = Some (Inr ((a, b), g))"
  by (subst angle_loop.simps) simp

lemma angle_loop_reject:
  "170 \<le> a + b \<Longrightarrow> choice angle_range g = Inr (a', g1) \<Longrightarrow>
   choice angle_range g1 = Inr (b', g2) \<Longrightarrow> angle_loop a b g = angle_loop a' b' g2"
  by (subst angle_loop.simps) simp

lemma angle_loop_returns:
  "angle_ok (draws g) (pos g + 2 * k) \<Longrightarrow>
   \<exists>a' b' g'. angle_loop a b g = Some (Inr ((a', b'), g')) \<and> draws g' = draws g"
proof (induction k arbitrary: a b g)
  case 0
  show ?case
  proof (cases "a + b < 170")
    case True
    then show ?thesis by (simp add: angle_loop_accept)
  next
    case False
    obtain a' g1 where c1: "choice angle_range g = Inr (a', g1)"
      and g1: "draws g1 = draws g" "pos g1 = Suc (pos g)"
      using choice_total[OF angle_range_nonempty] by blast
    obtain b' g2 where c2: "choice angle_range g1 = Inr (b', g2)"
      and g2: "draws g2 = draws g1" "pos g2 = Suc (pos g1)"
      using choice_total[OF angle_range_nonempty] by blast
    from 0 c1 c2 have "a' + b' < 170" by (simp add: angle_ok_here)
    with False c1 c2 g1 g2 show ?thesis
      by (simp add: angle_loop_reject[OF _ c1 c2] angle_loop_accept)
  qed
next
  case (Suc k)
  show ?case
  proof (cases "a + b < 170")
    case True
    then show ?thesis by (simp add: angle_loop_accept)
  next
    case False
    obtain a' g1 where c1: "choice angle_range g = Inr (a', g1)"
      and g1: "draws g1 = draws g" "pos g1 = Suc (pos g)"
      using choice_total[OF angle_range_nonempty] by blast
    obtain b' g2 where c2: "choice angle_range g1 = Inr (b', g2)"
      and g2: "draws g2 = draws g1" "pos g2 = Suc (pos g1)"
      using choice_total[OF angle_range_nonempty] by blast
    from Suc.prems g1 g2 have "angle_ok (draws g2) (pos g2 + 2 * k)" by simp
    from Suc.IH[OF this, of a' b'] False g1 g2 show ?thesis
      by (simp add: angle_loop_reject[OF _ c1 c2])
  qed
qed

lemma shuffle_from_rng:
  "draws (snd (shuffle_from i x g)) = draws g \<and> pos (snd (shuffle_from i x g)) = pos g + i"
  by (induction i arbitrary: x g) (simp_all add: randbelow_def)

lemma shuffle_rng: "shuffle x g = (x', g') \<Longrightarrow> draws g' = draws g"
  using shuffle_from_rng[of "length x - 1" x g] by (simp add: shuffle_def)

lemma randint_rng: "randint a b g = Inr (n, g') \<Longrightarrow> draws g' = draws g"
  by (auto simp: randint_def randbelow_def split: if_splits)

lemma sample_from_rng:
  "draws (snd (sample_from k m pool g)) = draws g \<and>
   pos (snd (sample_from k m pool g)) = pos g + k"
  by (induction k arbitrary: m pool g) (simp_all add: randbelow_def case_prod_beta)

lemma sample_sides_rng:
  assumes "sample_sides g = Inr (t, g')"
  shows "draws g' = draws g \<and> pos g' = pos g + 3"
proof -
  from assms have "g' = snd (sample_from 3 (length side_range) side_range g)"
    by (auto simp: sample_sides_def sample_def split: if_splits list.splits prod.splits)
  then show ?thesis by (simp add: sample_from_rng)
qed

lemma sides_ok_here:
  "sides_ok (draws g) (pos g) =
     (case sample_sides g of Inl e \<Rightarrow> False | Inr ((a, b, c), g') \<Rightarrow> c < a + b)"
  by (cases g) (simp add: sides_ok_def)

lemma sides_loop_accept: "c < a + b \<Longrightarrow> sides_loop a b c g = Some (Inr ((a, b, c), g))"
  by (subst sides_loop.simps) simp

lemma sides_loop_reject:
  "a + b \<le> c \<Longrightarrow> sample_sides g = Inr ((a', b', c'), g') \<Longrightarrow>
   sides_loop a b c g = sides_loop a' b' c' g'"
  by (subst sides_loop.simps) simp

lemma sides_loop_returns:
  "sides_ok (draws g) (pos g + 3 * k) \<Longrightarrow>
   \<exists>a' b' c' g'. sides_loop a b c g = Some (Inr ((a', b', c'), g')) \<and> draws g' = draws g"
proof (induction k arbitrary: a b c g)
  case 0
  show ?case
  proof (cases "c < a + b")
    case True
    then show ?thesis by (simp add: sides_loop_accept)
  next
    case False
    obtain a' b' c' g' where ss: "sample_sides g = Inr ((a', b', c'), g')"
      using sample_sides_strict by blast
    from 0 ss have "c' < a' + b'" by (simp add: sides_ok_here)
    with False sample_sides_rng[OF ss] show ?thesis
      by (simp add: sides_loop_reject[OF _ ss] sides_loop_accept)
  qed
next
  case (Suc k)
  show ?case
  proof (cases "c < a + b")
    case True
    then show ?thesis by (simp add: sides_loop_accept)
  next
    case False
    obtain a' b' c' g' where ss: "sample_sides g = Inr ((a', b', c'), g')"
      using sample_sides_strict by blast
    from Suc.prems sample_sides_rng[OF ss] have "sides_ok (draws g') (pos g' + 3 * k)"
      by (simp add: add.commute add.left_commute)
    from Suc.IH[OF this, of a' b' c'] False sample_sides_rng[OF ss] show ?thesis
      by (simp add: sides_loop_reject[OF _ ss])
  qed
qed

lemma fair_zero: "fair (draws (tape []))"
proof -
  have d: "draws (tape []) = (\<lambda>i. 0)" by (simp add: tape_def)
  have "angle_ok (\<lambda>i. 0) p" for p
    by (simp add: angle_ok_def choice_def randbelow_def angle_range_def)
  moreover have "sides_ok (\<lambda>i. 0) p" for p
    by (simp add: sides_ok_def sample_sides_def sample_def side_range_def randbelow_def
        numeral_3_eq_3)
  ultimately have "\<exists>k. angle_ok (\<lambda>i. 0) (p + 2 * k)" "\<exists>k. sides_ok (\<lambda>i. 0) (p + 3 * k)" for p
    by blast+
  with d show ?thesis by (simp add: fair_def)
qed

section \<open>Every generator gives a well-formed multiple-choice item\<close>

lemma mcq_ok_perm:
  assumes "mset ch = mset orig" and "a \<in> set orig"
  shows "mcq_ok \<lparr>id' = i, topic = t, stem = s, choices = ch, answer = VStr a, kind = k,
                 points = p\<rparr>"
proof -
  from assms(1) have "set ch = set orig" by (rule mset_eq_setD)
  with assms(2) show ?thesis by (auto simp: mcq_ok_def)
qed

lemma angle_sum_build_ok:
  "\<exists>it g'. angle_sum_build a b g = (it, g') \<and> kind it = ''MCQ'' \<and> mcq_ok it \<and>
     draws g' = draws g"
proof -
  let ?c = "180 - (a + b)"
  let ?orig = "[str_int ?c, str_int (?c + 5), str_int (?c - 5), str_int (?c + 10)]"
  obtain ch g' where sh: "shuffle ?orig g = (ch, g')" using shuffle_cases by blast
  have "mcq_ok \<lparr>id' = ''AS-'' @ str_int a @ ''-'' @ str_int b, topic = ''triangle_angle_sum'',
            stem = angle_sum_stem a b, choices = ch, answer = VStr (str_int ?c),
            kind = ''MCQ'', points = 2\<rparr>"
    by (rule mcq_ok_perm[OF shuffle_perm[OF sh]]) simp
  with sh shuffle_rng[OF sh] show ?thesis by (simp add: angle_sum_build_def Let_def)
qed

lemma gen_angle_sum_item_ok:
  assumes "gen_angle_sum_item g = Some r"
  shows "\<exists>it g'. r = Inr (it, g') \<and> kind it = ''MCQ'' \<and> mcq_ok it"
proof -
  obtain a0 g1 where c1: "choice angle_range g = Inr (a0, g1)" and a0: "a0 \<in> set angle_range"
    using choice_total[OF angle_range_nonempty] by blast
  obtain b0 g2 where c2: "choice angle_range g1 = Inr (b0, g2)" and b0: "b0 \<in> set angle_range"
    using choice_total[OF angle_range_nonempty] by blast
  from assms obtain q where l: "angle_loop a0 b0 g2 = Some q"
    by (auto simp: gen_angle_sum_item_def c1 c2 split: option.splits)
  from angle_loop_accepts[OF l a0 b0] obtain a b g3 where q: "q = Inr ((a, b), g3)" by blast
  from assms l q have "r = Inr (angle_sum_build a b g3)"
    by (simp add: gen_angle_sum_item_def c1 c2)
  with angle_sum_build_ok[of a b g3] show ?thesis by auto
qed

lemma gen_angle_sum_item_returns:
  assumes "fair (draws g)"
  shows "\<exists>it g'. gen_angle_sum_item g = Some (Inr (it, g')) \<and> draws g' = draws g"
proof -
  obtain a0 g1 where c1: "choice angle_range g = Inr (a0, g1)" and g1: "draws g1 = draws g"
    using choice_total[OF angle_range_nonempty] by blast
  obtain b0 g2 where c2: "choice angle_range g1 = Inr (b0, g2)" and g2: "draws g2 = draws g1"
    using choice_total[OF angle_range_nonempty] by blast
  from assms g1 g2 obtain k where "angle_ok (draws g2) (pos g2 + 2 * k)"
    by (auto simp: fair_def)
  from angle_loop_returns[OF this, of a0 b0] obtain a b g3 where
    l: "angle_loop a0 b0 g2 = Some (Inr ((a, b), g3))" and g3: "draws g3 = draws g2" by blast
  from angle_sum_build_ok[of a b g3] obtain it g' where
    "angle_sum_build a b g3 = (it, g')" "draws g' = draws g3" by blast
  with l g1 g2 g3 show ?thesis by (simp add: gen_angle_sum_item_def c1 c2)
qed

lemma gen_exterior_angle_item_ok:
  "\<exists>it g'. gen_exterior_angle_item g = Inr (it, g') \<and> kind it = ''MCQ'' \<and> mcq_ok it \<and>
     draws g' = draws g"
proof -
  let ?xs = "exterior_range"
  let ?as = "remote_range"
  have ne: "?xs \<noteq> []" "?as \<noteq> []" by (simp_all add: exterior_range_def remote_range_def)
  obtain x g1 where c1: "choice ?xs g = Inr (x, g1)" and g1: "draws g1 = draws g"
    using choice_total[OF ne(1)] by blast
  obtain a g2 where c2: "choice ?as g1 = Inr (a, g2)" and g2: "draws g2 = draws g1"
    using choice_total[OF ne(2)] by blast
  let ?b = "x - a"
  let ?orig = "[str_int ?b, str_int (?b + 5), str_int (?b - 10), str_int (?b + 15)]"
  obtain ch g3 where sh: "shuffle ?orig g2 = (ch, g3)" using shuffle_cases by blast
  have "mcq_ok \<lparr>id' = ''EX-'' @ str_int x @ ''-'' @ str_int a, topic = ''exterior_angle'',
                stem = exterior_stem x a, choices = ch, answer = VStr (str_int ?b),
                kind = ''MCQ'', points = 2\<rparr>"
    by (rule mcq_ok_perm[OF shuffle_perm[OF sh]]) simp
  with sh shuffle_rng[OF sh] g1 g2 show ?thesis
    by (simp add: gen_exterior_angle_item_def c1 c2 Let_def)
qed

lemma gen_similarity_item_ok:
  "\<exists>it g'. gen_similarity_item g = Inr (it, g') \<and> kind it = ''MCQ'' \<and> mcq_ok it \<and>
     draws g' = draws g"
proof -
  have ne: "[30, 40, 50, 60::int] \<noteq> []" "[40, 50, 60, 70::int] \<noteq> []" by simp_all
  obtain A g1 where c1: "choice [30, 40, 50, 60::int] g = Inr (A, g1)" and g1: "draws g1 = draws g"
    using choice_total[OF ne(1)] by blast
  obtain B g2 where c2: "choice [40, 50, 60, 70::int] g1 = Inr (B, g2)" and g2: "draws g2 = draws g1"
    using choice_total[OF ne(2)] by blast
  let ?orig = "[kr_possible_aa, kr_impossible, kr_possible_sss, kr_possible_sas]"
  obtain ch g3 where sh: "shuffle ?orig g2 = (ch, g3)" using shuffle_cases by blast
  have "mcq_ok \<lparr>id' = ''SIM-'' @ str_int A @ ''-'' @ str_int B,
                        topic = ''similarity_basic'', stem = similarity_stem A B,
                        choices = ch, answer = VStr kr_possible_aa, kind = ''MCQ'',
                        points = 2\<rparr>"
    by (rule mcq_ok_perm[OF shuffle_perm[OF sh]]) simp
  with sh shuffle_rng[OF sh] g1 g2 show ?thesis
    by (simp add: gen_similarity_item_def c1 c2)
qed

lemma congruence_pattern_rng:
  "congruence_pattern pattern g = Inr (sa, g') \<Longrightarrow> draws g' = draws g"
  by (auto simp: congruence_pattern_def choice_def randbelow_def split: if_splits)

lemma gen_congruence_item_ok:
  "\<exists>it g'. gen_congruence_item g = Inr (it, g') \<and> kind it = ''MCQ'' \<and> mcq_ok it \<and>
     draws g' = draws g"
proof -
  have ne: "take 4 options \<noteq> []" by (simp add: options_def)
  obtain pattern g1 where c: "choice (take 4 options) g = Inr (pattern, g1)"
    and p: "pattern \<in> set (take 4 options)" and g1: "draws g1 = draws g"
    using choice_total[OF ne] by blast
  from congruence_pattern_cases[OF p] obtain st ans g2 where
    cp: "congruence_pattern pattern g1 = Inr ((st, ans), g2)" and
    sa: "(st = kr_stem_sss \<and> ans = ''SSS'') \<or> (st = kr_stem_sas \<and> ans = ''SAS'') \<or>
         (st = kr_stem_nonincluded \<and> ans = ''AAS'') \<or>
         (st = kr_stem_two_angles_side \<and> (ans = ''ASA'' \<or> ans = ''AAS''))"
    by blast
  let ?orig = "take 4 options @ [kr_undecidable]"
  obtain ch g3 where sh: "shuffle ?orig g2 = (ch, g3)"
    using shuffle_cases by blast
  obtain n g4 where ri: "randint 1000 9999 g3 = Inr (n, g4)"
    using randint_id_total by blast
  from sa have "ans \<in> set ?orig" by (auto simp: options_def)
  then have "mcq_ok \<lparr>id' = ''CG-'' @ str_int n, topic = ''congruence'', stem = st,
                     choices = ch, answer = VStr ans, kind = ''MCQ'', points = 2\<rparr>"
    by (rule mcq_ok_perm[OF shuffle_perm[OF sh]])
  with g1 congruence_pattern_rng[OF cp] shuffle_rng[OF sh] randint_rng[OF ri] show ?thesis
    by (simp add: gen_congruence_item_def c cp sh ri)
qed

lemma triangle_types_build_ok:
  assumes "answer' \<in> set choices0"
  shows "\<exists>it g'. triangle_types_build (stem', choices0, answer') g = Inr (it, g') \<and>
           kind it = ''MCQ'' \<and> mcq_ok it \<and> draws g' = draws g"
proof -
  obtain ch g1 where sh: "shuffle choices0 g = (ch, g1)" using shuffle_cases by blast
  obtain n g2 where ri: "randint 1000 9999 g1 = Inr (n, g2)"
    using randint_id_total by blast
  from assms have "mcq_ok \<lparr>id' = ''TT-'' @ str_int n, topic = ''triangle_types'', stem = stem',
                        choices = ch, answer = VStr answer', kind = ''MCQ'', points = 2\<rparr>"
    by (rule mcq_ok_perm[OF shuffle_perm[OF sh]])
  with shuffle_rng[OF sh] randint_rng[OF ri] show ?thesis
    by (simp add: triangle_types_build_def sh ri)
qed

lemma angles_mode_ok:
  "\<exists>st ch ans g'. angles_mode g = Inr ((st, ch, ans), g') \<and> ans \<in> set ch \<and>
     draws g' = draws g"
proof -
  have ne: "[30, 45, 60, 70, 80, 90, 100, 120::int] \<noteq> []" by simp
  obtain A g1 where c: "choice [30, 45, 60, 70, 80, 90, 100, 120::int] g = Inr (A, g1)"
    and g1: "draws g1 = draws g"
    using choice_total[OF ne] by blast
  with g1 show ?thesis by (simp add: angles_mode_def classify_angle_def)
qed

lemma mode_choice:
  "\<exists>mode g1. choice [''sides'', ''angles''] g = Inr (mode, g1) \<and> draws g1 = draws g"
  using choice_total[of "[''sides'', ''angles'']" g] by blast

lemma gen_triangle_types_item_ok:
  assumes "gen_triangle_types_item g = Some r"
  shows "\<exists>it g'. r = Inr (it, g') \<and> kind it = ''MCQ'' \<and> mcq_ok it"
proof -
  obtain mode g1 where c: "choice [''sides'', ''angles''] g = Inr (mode, g1)"
    using mode_choice by blast
  show ?thesis
  proof (cases "mode = ''sides''")
    case True
    with assms c obtain q where sm: "sides_mode g1 = Some q"
      by (auto simp: gen_triangle_types_item_def split: option.splits)
    from sides_mode_scalene[OF sm] obtain a b c' g2 where
      q: "q = Inr ((sides_stem a b c',
               [kr_equilateral, kr_isosceles, kr_right, kr_scalene], kr_scalene), g2)"
      by blast
    from assms c True sm q have "r = triangle_types_build (sides_stem a b c',
               [kr_equilateral, kr_isosceles, kr_right, kr_scalene], kr_scalene) g2"
      by (simp add: gen_triangle_types_item_def)
    moreover have "kr_scalene \<in> set [kr_equilateral, kr_isosceles, kr_right, kr_scalene]"
      by simp
    ultimately show ?thesis using triangle_types_build_ok by blast
  next
    case False
    obtain st ch ans g2 where am: "angles_mode g1 = Inr ((st, ch, ans), g2)"
      and a: "ans \<in> set ch"
      using angles_mode_ok by blast
    from assms c False am have "r = triangle_types_build (st, ch, ans) g2"
      by (simp add: gen_triangle_types_item_def)
    with triangle_types_build_ok[OF a] show ?thesis by blast
  qed
qed

lemma sides_mode_returns:
  assumes "fair (draws g)"
  shows "\<exists>st ch ans g'. sides_mode g = Some (Inr ((st, ch, ans), g')) \<and> draws g' = draws g"
proof -
  obtain a0 b0 c0 g1 where ss: "sample_sides g = Inr ((a0, b0, c0), g1)"
    using sample_sides_strict by blast
  from assms sample_sides_rng[OF ss] obtain k where "sides_ok (draws g1) (pos g1 + 3 * k)"
    by (auto simp: fair_def)
  from sides_loop_returns[OF this, of a0 b0 c0] obtain a b c g2 where
    "sides_loop a0 b0 c0 g1 = Some (Inr ((a, b, c), g2))" "draws g2 = draws g1" by blast
  with sample_sides_rng[OF ss] show ?thesis by (simp add: sides_mode_def ss)
qed

lemma gen_triangle_types_item_returns:
  assumes "fair (draws g)"
  shows "\<exists>it g'. gen_triangle_types_item g = Some (Inr (it, g')) \<and> draws g' = draws g"
proof -
  obtain mode g1 where c: "choice [''sides'', ''angles''] g = Inr (mode, g1)"
    and g1: "draws g1 = draws g"
    using mode_choice by blast
  have "\<exists>sca g2. (if mode = ''sides'' then sides_mode g1 else Some (angles_mode g1)) =
          Some (Inr (sca, g2)) \<and> draws g2 = draws g"
  proof (cases "mode = ''sides''")
    case True
    from assms g1 have "fair (draws g1)" by simp
    from sides_mode_returns[OF this] g1 True show ?thesis by auto
  next
    case False
    with angles_mode_ok[of g1] g1 show ?thesis by auto
  qed
  then obtain sca g2 where
    m: "(if mode = ''sides'' then sides_mode g1 else Some (angles_mode g1)) = Some (Inr (sca, g2))"
    and g2: "draws g2 = draws g" by blast
  then have r: "gen_triangle_types_item g = Some (triangle_types_build sca g2)"
    by (auto simp: gen_triangle_types_item_def c split: if_splits)
  from gen_triangle_types_item_ok[OF r] obtain it g' where
    b: "triangle_types_build sca g2 = Inr (it, g')" by blast
  obtain st ch ans where sca: "sca = (st, ch, ans)" by (cases sca)
  obtain ch' g3 where sh: "shuffle ch g2 = (ch', g3)" using shuffle_cases by blast
  obtain n g4 where ri: "randint 1000 9999 g3 = Inr (n, g4)" using randint_id_total by blast
  from b sca sh ri have "g' = g4" by (simp add: triangle_types_build_def)
  with shuffle_rng[OF sh] randint_rng[OF ri] g2 have "draws g' = draws g" by simp
  with r b show ?thesis by simp
qed

section \<open>The side-length mode of the classification generator\<close>

text \<open>
  C9. When the classification generator draws the side-length mode, the three sides of
  the returned item are pairwise different (strictly increasing after sorting) and satisfy
  the strict triangle inequality, and the canonical answer is the scalene classification,
  never the equilateral or the isosceles one.
\<close>

theorem sides_mode_always_scalene:
  assumes "gen_triangle_types_item g = Some r"
    and "choice [''sides'', ''angles''] g = Inr (''sides'', g1)"
  shows "\<exists>it g' a b c. r = Inr (it, g') \<and> a < b \<and> b < c \<and> c < a + b \<and>
           stem it = sides_stem a b c \<and> answer it = VStr kr_scalene \<and>
           answer it \<noteq> VStr kr_equilateral \<and> answer it \<noteq> VStr kr_isosceles"
proof -
  from assms obtain q where sm: "sides_mode g1 = Some q"
    by (auto simp: gen_triangle_types_item_def split: option.splits)
  from sides_mode_scalene[OF sm] obtain a b c g2 where
    q: "q = Inr ((sides_stem a b c,
             [kr_equilateral, kr_isosceles, kr_right, kr_scalene], kr_scalene), g2)"
    and abc: "a < b" "b < c" "c < a + b" by blast
  obtain ch g3 where sh: "shuffle [kr_equilateral, kr_isosceles, kr_right, kr_scalene] g2 = (ch, g3)"
    using shuffle_cases by blast
  obtain n g4 where ri: "randint 1000 9999 g3 = Inr (n, g4)"
    using randint_id_total by blast
  from assms sm q have "r = Inr (\<lparr>id' = ''TT-'' @ str_int n, topic = ''triangle_types'',
      stem = sides_stem a b c, choices = ch, answer = VStr kr_scalene, kind = ''MCQ'',
      points = 2\<rparr>, g4)"
    by (simp add: gen_triangle_types_item_def triangle_types_build_def sh ri)
  with abc kr_scalene_distinct show ?thesis by auto
qed

theorem sides_mode_always_scalene_witness:
  "choice [''sides'', ''angles''] (tape []) = Inr (''sides'', (tape [])\<lparr>pos := 1\<rparr>) \<and>
   (\<exists>it g' a b c. gen_triangle_types_item (tape []) = Some (Inr (it, g')) \<and>
      a < b \<and> b < c \<and> c < a + b \<and> stem it = sides_stem a b c \<and>
      answer it = VStr kr_scalene \<and>
      answer it \<noteq> VStr kr_equilateral \<and> answer it \<noteq> VStr kr_isosceles)"
proof -
  have c: "choice [''sides'', ''angles''] (tape []) = Inr (''sides'', (tape [])\<lparr>pos := 1\<rparr>)"
    by (simp add: choice_def randbelow_def tape_def)
  from gen_triangle_types_item_returns[OF fair_zero] obtain it g' where
    h: "gen_triangle_types_item (tape []) = Some (Inr (it, g'))" by blast
  from sides_mode_always_scalene[OF h c] h c show ?thesis by auto
qed

section \<open>The Generate handler\<close>

lemma GEN_FUNCS_ok:
  assumes "map_of GEN_FUNCS tk = Some gen" and "gen g = Some r"
  shows "\<exists>it g'. r = Inr (it, g') \<and> kind it = ''MCQ'' \<and> mcq_ok it"
proof -
  from assms(1) consider "gen = gen_angle_sum_item"
    | "gen = (\<lambda>g. Some (gen_exterior_angle_item g))"
    | "gen = gen_triangle_types_item"
    | "gen = (\<lambda>g. Some (gen_congruence_item g))"
    | "gen = (\<lambda>g. Some (gen_similarity_item g))"
    by (auto simp: GEN_FUNCS_def split: if_splits)
  then show ?thesis
  proof cases
    case 1
    with assms(2) gen_angle_sum_item_ok show ?thesis by blast
  next
    case 2
    with assms(2) gen_exterior_angle_item_ok[of g] show ?thesis by auto
  next
    case 3
    with assms(2) gen_triangle_types_item_ok show ?thesis by blast
  next
    case 4
    with assms(2) gen_congruence_item_ok[of g] show ?thesis by auto
  next
    case 5
    with assms(2) gen_similarity_item_ok[of g] show ?thesis by auto
  qed
qed

lemma GEN_FUNCS_returns:
  assumes "map_of GEN_FUNCS tk = Some gen" and "fair (draws g)"
  shows "\<exists>it g'. gen g = Some (Inr (it, g')) \<and> draws g' = draws g"
proof -
  from assms(1) consider "gen = gen_angle_sum_item"
    | "gen = (\<lambda>g. Some (gen_exterior_angle_item g))"
    | "gen = gen_triangle_types_item"
    | "gen = (\<lambda>g. Some (gen_congruence_item g))"
    | "gen = (\<lambda>g. Some (gen_similarity_item g))"
    by (auto simp: GEN_FUNCS_def split: if_splits)
  then show ?thesis
  proof cases
    case 1
    with assms(2) gen_angle_sum_item_returns show ?thesis by blast
  next
    case 2
    with gen_exterior_angle_item_ok[of g] show ?thesis by auto
  next
    case 3
    with assms(2) gen_triangle_types_item_returns show ?thesis by blast
  next
    case 4
    with gen_congruence_item_ok[of g] show ?thesis by auto
  next
    case 5
    with gen_similarity_item_ok[of g] show ?thesis by auto
  qed
qed

lemma generate_items_ok:
  assumes "generate_items tks n items g = Some r" and "tks \<noteq> []"
    and "set tks \<subseteq> fst ` set GEN_FUNCS"
  shows "\<exists>new g'. r = Inr (items @ new, g') \<and> length new = n \<and>
           (\<forall>it \<in> set new. kind it = ''MCQ'' \<and> mcq_ok it)"
  using assms(1)
proof (induction n arbitrary: items g)
  case 0
  then show ?case by auto
next
  case (Suc n)
  obtain tk g1 where c: "choice tks g = Inr (tk, g1)" and tk: "tk \<in> set tks"
    using choice_total[OF assms(2)] by blast
  with assms(3) obtain gen where mf: "map_of GEN_FUNCS tk = Some gen"
    by (metis domD dom_map_of_conv_image_fst subsetD)
  from Suc.prems obtain q where gq: "gen g1 = Some q"
    by (auto simp: c mf split: option.splits)
  from GEN_FUNCS_ok[OF mf gq] obtain it g2 where q: "q = Inr (it, g2)"
    and ok: "kind it = ''MCQ''" "mcq_ok it" by blast
  from Suc.prems have "generate_items tks n (items @ [it]) g2 = Some r"
    by (simp add: c mf gq q)
  from Suc.IH[OF this] obtain new g' where
    "r = Inr ((items @ [it]) @ new, g')" "length new = n"
    "\<forall>it \<in> set new. kind it = ''MCQ'' \<and> mcq_ok it" by blast
  with ok show ?case by (intro exI[of _ "it # new"] exI[of _ g']) simp
qed

lemma generate_items_returns:
  assumes "fair (draws g)" and "tks \<noteq> []" and "set tks \<subseteq> fst ` set GEN_FUNCS"
  shows "\<exists>items' g'. generate_items tks n items g = Some (Inr (items', g'))"
  using assms(1)
proof (induction n arbitrary: items g)
  case 0
  then show ?case by simp
next
  case (Suc n)
  obtain tk g1 where c: "choice tks g = Inr (tk, g1)" and tk: "tk \<in> set tks"
    and g1: "draws g1 = draws g"
    using choice_total[OF assms(2)] by blast
  with assms(3) obtain gen where mf: "map_of GEN_FUNCS tk = Some gen"
    by (metis domD dom_map_of_conv_image_fst subsetD)
  from Suc.prems g1 have "fair (draws g1)" by simp
  from GEN_FUNCS_returns[OF mf this] obtain it g2 where
    gq: "gen g1 = Some (Inr (it, g2))" and g2: "draws g2 = draws g1" by blast
  from Suc.prems g1 g2 have "fair (draws g2)" by simp
  from Suc.IH[OF this, of "items @ [it]"] show ?case by (simp add: c mf gq)
qed

lemma topic_keys_all:
  "topic_keys (map fst TOPICS) =
     [''triangle_angle_sum'', ''exterior_angle'', ''triangle_types'', ''congruence'',
      ''similarity_basic'']"
  by (simp add: topic_keys_def TOPICS_def)

lemma topic_keys_all_known:
  "topic_keys (map fst TOPICS) \<noteq> []" "set (topic_keys (map fst TOPICS)) \<subseteq> fst ` set GEN_FUNCS"
  by (simp_all add: topic_keys_all GEN_FUNCS_def)

text \<open>
  C8. The outcome of the Generate handler (the stored items with their ids, stems, choice
  orders, answers, kinds and points, the generator state it leaves, or the error, or
  divergence) depends only on the seed, the selected topics and the requested count: two
  sessions that differ in everything else, the earlier generator state included, get the
  same outcome.
\<close>

theorem generate_deterministic:
  "map_option (map_sum id (\<lambda>s. (quiz_items s, random_state s)))
       (generate_handler seedf seed n_items topics_selected s1) =
   map_option (map_sum id (\<lambda>s. (quiz_items s, random_state s)))
       (generate_handler seedf seed n_items topics_selected s2)"
  by (simp add: generate_handler_def split: option.splits sum.splits)

section \<open>Assignments to a dict\<close>

lemma apply_updates_simps:
  "apply_updates l [] = l"
  "apply_updates l ((k, v) # us) = apply_updates (AList.update k v l) us"
  by (simp_all add: apply_updates_def)

lemma apply_updates_keys_present:
  "set (map fst us) \<subseteq> set (map fst l) \<Longrightarrow> map fst (apply_updates l us) = map fst l"
proof (induction us arbitrary: l)
  case Nil
  then show ?case by (simp add: apply_updates_simps)
next
  case (Cons u us)
  obtain k v where u: "u = (k, v)" by (cases u)
  from Cons.prems u have k: "k \<in> set (map fst l)" by simp
  then have keys: "map fst (AList.update k v l) = map fst l" by (simp add: update_keys)
  with Cons.prems have "set (map fst us) \<subseteq> set (map fst (AList.update k v l))" by simp
  from Cons.IH[OF this] keys u show ?case by (simp add: apply_updates_simps)
qed

lemma apply_updates_keys_grow: "set (map fst l) \<subseteq> set (map fst (apply_updates l us))"
proof (induction us arbitrary: l)
  case Nil
  then show ?case by (simp add: apply_updates_simps)
next
  case (Cons u us)
  obtain k v where u: "u = (k, v)" by (cases u)
  have "set (map fst l) \<subseteq> set (map fst (AList.update k v l))" by (auto simp: update_keys)
  with Cons.IH[of "AList.update k v l"] u show ?case
    by (simp add: apply_updates_simps)
qed

lemma apply_updates_keys_cover: "set (map fst us) \<subseteq> set (map fst (apply_updates l us))"
proof (induction us arbitrary: l)
  case Nil
  then show ?case by simp
next
  case (Cons u us)
  obtain k v where u: "u = (k, v)" by (cases u)
  have "k \<in> set (map fst (AList.update k v l))" by (simp add: update_keys)
  with apply_updates_keys_grow[of "AList.update k v l" us]
  have "k \<in> set (map fst (apply_updates (AList.update k v l) us))" by blast
  with Cons.IH[of "AList.update k v l"] u show ?case by (simp add: apply_updates_simps)
qed

lemma apply_updates_map_of:
  "map_of (apply_updates l us) = map_of l ++ map_of (rev us)"
proof (induction us arbitrary: l)
  case Nil
  then show ?case by (simp add: apply_updates_simps)
next
  case (Cons u us)
  obtain k v where u: "u = (k, v)" by (cases u)
  have "map_of (AList.update k v l) ++ map_of (rev us) = map_of l ++ map_of (rev us @ [(k, v)])"
    by (rule ext) (auto simp: update_conv' map_add_def split: option.splits)
  with Cons.IH[of "AList.update k v l"] u show ?case by (simp add: apply_updates_simps)
qed

lemma apply_updates_distinct:
  "distinct (map fst l) \<Longrightarrow> distinct (map fst (apply_updates l us))"
  by (induction us arbitrary: l) (auto simp: apply_updates_simps distinct_update)

lemma entries_eqI:
  assumes "map fst l1 = map fst l2" and "distinct (map fst l1)" and "map_of l1 = map_of l2"
  shows "l1 = l2"
  using assms
proof (induction l1 arbitrary: l2)
  case Nil
  then show ?case by simp
next
  case (Cons p l1)
  from Cons.prems(1) obtain q l2' where l2: "l2 = q # l2'" by (cases l2) auto
  with Cons.prems(1) have k: "fst p = fst q" and ks: "map fst l1 = map fst l2'" by simp_all
  from Cons.prems(3) l2 have eqf: "map_of (p # l1) = map_of (q # l2')" by (simp only:)
  from fun_cong[OF eqf, of "fst p"] k have v: "snd p = snd q" by simp
  with k have pq: "p = q" by (simp add: prod_eq_iff)
  have "map_of l1 = map_of l2'"
  proof
    fix x
    show "map_of l1 x = map_of l2' x"
    proof (cases "x = fst p")
      case True
      with Cons.prems(2) have n1: "x \<notin> set (map fst l1)" by simp
      with ks have n2: "x \<notin> set (map fst l2')" by simp
      from n1 have "map_of l1 x = None" by (simp add: map_of_eq_None_iff)
      moreover from n2 have "map_of l2' x = None" by (simp add: map_of_eq_None_iff)
      ultimately show ?thesis by simp
    next
      case False
      from fun_cong[OF eqf, of x] False pq show ?thesis by simp
    qed
  qed
  with Cons.IH[OF ks] Cons.prems(2) pq l2 show ?case by simp
qed

lemma apply_updates_idem:
  assumes "distinct (map fst l)"
  shows "apply_updates (apply_updates l us) us = apply_updates l us"
proof (rule entries_eqI)
  show "map fst (apply_updates (apply_updates l us) us) = map fst (apply_updates l us)"
    by (rule apply_updates_keys_present) (rule apply_updates_keys_cover)
  show "distinct (map fst (apply_updates (apply_updates l us) us))"
    by (intro apply_updates_distinct assms)
  have "m ++ m = m" for m :: "'a \<rightharpoonup> 'b"
    by (rule ext) (simp add: map_add_def split: option.splits)
  then have "(n ++ m) ++ m = n ++ m" for n m :: "'a \<rightharpoonup> 'b"
    by (simp add: map_add_assoc [symmetric] del: map_add_assoc)
  then show "map_of (apply_updates (apply_updates l us) us) = map_of (apply_updates l us)"
    by (simp add: apply_updates_map_of)
qed

lemma dict_items_empty: "dict_items dict_empty = []"
  by (simp add: dict_items_def dict_empty_def empty.rep_eq)

lemma dict_items_set: "dict_items (dict_set k v d) = AList.update k v (dict_items d)"
  by (simp add: dict_items_def dict_set_def update.rep_eq)

lemma dict_get_items: "dict_get d k = map_of (dict_items d) k"
  by (simp add: dict_items_def dict_get_def lookup.rep_eq)

lemma dict_items_distinct: "distinct (map fst (dict_items d))"
  by (simp add: dict_items_def)

lemma dict_eqI: "dict_items d1 = dict_items d2 \<Longrightarrow> d1 = d2"
  by (simp add: dict_items_def alist_ext)

lemma dict_items_foldl:
  "dict_items (foldl (\<lambda>d (k, v). dict_set k v d) d us) = apply_updates (dict_items d) us"
  by (induction us arbitrary: d) (auto simp: apply_updates_simps dict_items_set)

section \<open>Auto-grading\<close>

lemma grade_item_eq:
  "grade_item sid w ((t, m), r) item =
     ((t + r_score (grade_record w item), m + points item),
      dict_set (sid, id' item) (grade_record w item) r)"
  by (simp add: grade_item_def grade_record_def Let_def)

lemma foldl_grade_item:
  "foldl (grade_item sid w) ((t, m), r) items =
     ((t + sum_list (map (\<lambda>it. r_score (grade_record w it)) items),
       m + sum_list (map points items)),
      foldl (\<lambda>d (k, v). dict_set k v d) r
        (map (\<lambda>it. ((sid, id' it), grade_record w it)) items))"
  by (induction items arbitrary: t m r) (simp_all add: grade_item_eq add.assoc)

lemma auto_grade_eq:
  "auto_grade sid s =
     ((sum_list (map (\<lambda>it. r_score (grade_record (widgets s) it)) (quiz_items s)),
       sum_list (map points (quiz_items s))),
      s\<lparr>responses := foldl (\<lambda>d (k, v). dict_set k v d) (responses s)
            (map (\<lambda>it. ((sid, id' it), grade_record (widgets s) it)) (quiz_items s))\<rparr>)"
  by (simp add: auto_grade_def foldl_grade_item)

lemma foldl_dict_set_idem:
  "foldl (\<lambda>d (k, v). dict_set k v d) (foldl (\<lambda>d (k, v). dict_set k v d) d us) us =
   foldl (\<lambda>d (k, v). dict_set k v d) d us"
  by (rule dict_eqI) (simp add: dict_items_foldl apply_updates_idem dict_items_distinct)

text \<open>
  C2. For every item list and every student: when the stored response of each item,
  coerced to a string, equals the string of the item's canonical answer, auto-grading
  reports a total equal to the sum of the point values of all items, and the same sum as
  the maximum.
\<close>

theorem auto_grade_all_correct:
  assumes "\<forall>item \<in> set (quiz_items s).
             str (widgets s (''resp_'' @ id' item)) = str (answer item)"
  shows "fst (auto_grade sid s) =
           (sum_list (map points (quiz_items s)), sum_list (map points (quiz_items s)))"
proof -
  from assms have "\<forall>it \<in> set (quiz_items s). r_score (grade_record (widgets s) it) = points it"
    by (simp add: grade_record_def)
  then have "sum_list (map (\<lambda>it. r_score (grade_record (widgets s) it)) (quiz_items s)) =
      sum_list (map points (quiz_items s))"
    by (induction "quiz_items s") (simp_all cong: map_cong)
  then show ?thesis by (simp only: auto_grade_eq fst_conv)
qed

theorem auto_grade_all_correct_witness:
  "fst (auto_grade ''S001''
     ((init_session (tape []))
        \<lparr>quiz_items :=
           [\<lparr>id' = ''AS-20-20'', topic = ''triangle_angle_sum'', stem = angle_sum_stem 20 20,
             choices = [''140'', ''145'', ''135'', ''150''], answer = VStr ''140'',
             kind = ''MCQ'', points = 2\<rparr>,
            \<lparr>id' = ''N-1'', topic = ''exterior_angle'', stem = exterior_stem 100 55,
             choices = [], answer = VInt 45, kind = ''NUM'', points = 3\<rparr>],
         widgets := (\<lambda>key. if key = ''resp_AS-20-20'' then VStr ''140''
                          else if key = ''resp_N-1'' then VInt 45 else VNone)\<rparr>))
   = (5, 5)"
proof -
  let ?s = "(init_session (tape []))
        \<lparr>quiz_items :=
           [\<lparr>id' = ''AS-20-20'', topic = ''triangle_angle_sum'', stem = angle_sum_stem 20 20,
             choices = [''140'', ''145'', ''135'', ''150''], answer = VStr ''140'',
             kind = ''MCQ'', points = 2\<rparr>,
            \<lparr>id' = ''N-1'', topic = ''exterior_angle'', stem = exterior_stem 100 55,
             choices = [], answer = VInt 45, kind = ''NUM'', points = 3\<rparr>],
         widgets := (\<lambda>key. if key = ''resp_AS-20-20'' then VStr ''140''
                          else if key = ''resp_N-1'' then VInt 45 else VNone)\<rparr>"
  have h: "\<forall>item \<in> set (quiz_items ?s).
      str (widgets ?s (''resp_'' @ id' item)) = str (answer item)"
    by simp
  from auto_grade_all_correct[OF h, of "''S001''"] show ?thesis by simp
qed

text \<open>
  C6. Auto-grading is idempotent: with the stored responses unchanged, grading a student a
  second time reports the same scores and leaves the whole session, and so the response
  store with its correctness flags, scores, records and their order, as the first run did.
\<close>

theorem auto_grade_idempotent:
  "auto_grade sid (snd (auto_grade sid s)) = auto_grade sid s"
  by (simp add: auto_grade_eq foldl_dict_set_idem)

section \<open>Rubric save\<close>

lemma count_key_one:
  assumes "distinct (map fst l)" and "k \<in> set (map fst l)"
  shows "length (filter (\<lambda>e. fst e = k) l) = 1"
  using assms
proof (induction l)
  case Nil
  then show ?case by simp
next
  case (Cons p l)
  show ?case
  proof (cases "fst p = k")
    case True
    with Cons.prems(1) have "k \<notin> set (map fst l)" by simp
    then have "filter (\<lambda>e. fst e = k) l = []" by (auto simp: filter_empty_conv)
    with True show ?thesis by simp
  next
    case False
    with Cons show ?thesis by simp
  qed
qed

lemma dict_set_twice: "dict_set k v' (dict_set k v d) = dict_set k v' d"
  by (rule dict_eqI) (simp add: dict_items_set)

lemma dict_get_set_same: "dict_get (dict_set k v d) k = Some v"
  by (simp add: dict_get_items dict_items_set update_conv')

lemma dict_set_count: "length (filter (\<lambda>e. fst e = k) (dict_items (dict_set k v d))) = 1"
proof (rule count_key_one)
  show "distinct (map fst (dict_items (dict_set k v d)))" by (rule dict_items_distinct)
  show "k \<in> set (map fst (dict_items (dict_set k v d)))"
    by (simp add: dict_items_set update_keys)
qed

text \<open>
  C7. Saving a rubric twice with the same levels and notes gives the session a single save
  gives; the store then holds exactly one record under the (student, task) key, the saved
  one. Saving other values at the same key gives the session that saving only these
  values gives, and the key then holds the later record: the last write wins.
\<close>

theorem rubric_save_overwrite:
  "rubric_save sid2 task_obj sliders notes (rubric_save sid2 task_obj sliders notes s) =
     rubric_save sid2 task_obj sliders notes s \<and>
   length (filter (\<lambda>e. fst e = (sid2, task_id task_obj))
     (dict_items (rubric_scores
        (rubric_save sid2 task_obj sliders notes (rubric_save sid2 task_obj sliders notes s)))))
     = 1 \<and>
   dict_get (rubric_scores (rubric_save sid2 task_obj sliders notes s)) (sid2, task_id task_obj) =
     Some (rubric_record sliders notes task_obj) \<and>
   rubric_save sid2 task_obj sliders' notes' (rubric_save sid2 task_obj sliders notes s) =
     rubric_save sid2 task_obj sliders' notes' s \<and>
   dict_get (rubric_scores
       (rubric_save sid2 task_obj sliders' notes' (rubric_save sid2 task_obj sliders notes s)))
     (sid2, task_id task_obj) = Some (rubric_record sliders' notes' task_obj)"
  by (simp add: rubric_save_def dict_set_twice dict_get_set_same dict_set_count)

text \<open>The saved record lists the four criteria, then the notes and the point value.\<close>

lemma rubric_record_items:
  "dict_items (rubric_record sliders notes task_obj) =
     [(''concept'', VInt (sliders ''concept'')), (''procedure'', VInt (sliders ''procedure'')),
      (''reasoning'', VInt (sliders ''reasoning'')),
      (''communication'', VInt (sliders ''communication'')),
      (''notes'', VStr notes), (''task_points'', VInt (task_points task_obj))]"
  by (simp add: rubric_record_def RUBRIC_CRITERIA_def dict_items_set dict_items_empty)

section \<open>Roster upload\<close>

lemma cols_lower_items:
  "dict_items (foldl (\<lambda>d c. dict_set (lower c) c d) d cols) =
     apply_updates (dict_items d) (map (\<lambda>c. (lower c, c)) cols)"
  by (induction cols arbitrary: d) (simp_all add: apply_updates_simps dict_items_set)

lemma cols_lower_get_None:
  assumes "k \<notin> lower ` set cols"
  shows "dict_get (cols_lower cols) k = None"
proof -
  have "dict_get (cols_lower cols) k = map_of (rev (map (\<lambda>c. (lower c, c)) cols)) k"
    by (simp add: dict_get_items cols_lower_def cols_lower_items dict_items_empty
        apply_updates_map_of)
  also from assms have "\<dots> = None"
    by (simp add: map_of_eq_None_iff image_image)
  finally show ?thesis .
qed

lemma pick_column_fallback:
  assumes "k1 \<notin> lower ` set cols" and "k2 \<notin> lower ` set cols"
  shows "pick_column cols k1 k2 i = column_at cols i"
  using assms by (simp add: pick_column_def py_or_def cols_lower_get_None)

lemma filter_index_head:
  assumes "x \<notin> set ys"
  shows "filter (\<lambda>i. (x # ys) ! i = x) [0..<Suc (length ys)] = [0]"
proof -
  have "filter (\<lambda>i. ys ! i = x) [0..<length ys] = []"
    using assms by (auto simp: filter_empty_conv)
  then have "filter (\<lambda>i. (x # ys) ! i = x) (map Suc [0..<length ys]) = []"
    by (simp add: filter_map comp_def)
  moreover have "[0..<Suc (length ys)] = 0 # map Suc [0..<length ys]"
    by (simp add: upt_conv_Cons map_Suc_upt del: upt_Suc)
  ultimately show ?thesis by simp
qed

lemma filter_index_second:
  assumes "a \<noteq> b" and "b \<notin> set ys"
  shows "filter (\<lambda>i. (a # b # ys) ! i = b) [0..<Suc (Suc (length ys))] = [1]"
proof -
  have "[0..<Suc (Suc (length ys))] = 0 # map Suc [0..<Suc (length ys)]"
    by (simp add: upt_conv_Cons map_Suc_upt del: upt_Suc)
  moreover have "filter (\<lambda>i. (a # b # ys) ! i = b) (map Suc [0..<Suc (length ys)]) =
      map Suc (filter (\<lambda>i. (b # ys) ! i = b) [0..<Suc (length ys)])"
    by (simp add: filter_map comp_def del: upt_Suc)
  ultimately show ?thesis using assms filter_index_head[OF assms(2)]
    by (simp del: upt_Suc)
qed

lemma lower_ID: "lower ''ID'' = ''id''"
  by (simp add: lower_def lower_char_def)

lemma lower_kr_ireum: "lower kr_ireum = kr_ireum"
  by (simp add: lower_def lower_char_def kr_ireum_def)

text \<open>
  When no header is recognised and the table has at least two columns, loading falls back
  to the first two columns by position.
\<close>

lemma load_roster_positional:
  assumes cols: "columns df = c0 # c1 # cs" and dist: "distinct (columns df)"
    and nh: "\<forall>c \<in> set (columns df). lower c \<notin> {''id'', kr_hakbeon, kr_ireum, ''name''}"
  shows "load_roster df =
           Inr \<lparr>columns = [''ID'', kr_ireum], rows = map (\<lambda>r. [r ! 0, r ! 1]) (rows df)\<rparr>"
proof -
  from nh have k: "''id'' \<notin> lower ` set (columns df)" "kr_hakbeon \<notin> lower ` set (columns df)"
    "kr_ireum \<notin> lower ` set (columns df)" "''name'' \<notin> lower ` set (columns df)"
    by auto
  have p0: "pick_column (columns df) ''id'' kr_hakbeon 0 = Inr c0"
    unfolding pick_column_fallback[OF k(1,2)] by (simp add: column_at_def cols)
  have p1: "pick_column (columns df) kr_ireum ''name'' 1 = Inr c1"
    unfolding pick_column_fallback[OF k(3,4)] by (simp add: column_at_def cols)
  from dist cols have ne: "c0 \<noteq> c1" "c0 \<notin> set cs" "c1 \<notin> set cs" by auto
  let ?m = "dict_set c1 kr_ireum (dict_set c0 ''ID'' dict_empty)"
  have get: "dict_get ?m c = (if c = c1 then Some kr_ireum else if c = c0 then Some ''ID'' else None)"
    for c
    by (simp add: dict_get_items dict_items_set dict_items_empty update_conv')
  from ne have "map (\<lambda>c. case dict_get ?m c of None \<Rightarrow> c | Some c' \<Rightarrow> c') cs = cs"
    by (intro map_idI) (auto simp: get)
  with ne have rn: "columns (rename ?m df) = ''ID'' # kr_ireum # cs"
    by (simp add: rename_def cols get)
  have rr: "rows (rename ?m df) = rows df" by (simp add: rename_def)
  from k(1) lower_ID have "''ID'' \<notin> set (columns df)" by (metis image_eqI)
  with cols have id_ni: "''ID'' \<notin> set cs" "''ID'' \<noteq> c0" by auto
  from k(3) lower_kr_ireum have "kr_ireum \<notin> set (columns df)" by (metis image_eqI)
  with cols have nm_ni: "kr_ireum \<notin> set cs" by auto
  have idne: "''ID'' \<noteq> kr_ireum" by (simp add: kr_ireum_def)
  from id_ni idne have "''ID'' \<notin> set (kr_ireum # cs)" by simp
  from filter_index_head[OF this]
  have f0: "filter (\<lambda>i. (''ID'' # kr_ireum # cs) ! i = ''ID'') [0..<Suc (Suc (length cs))] = [0]"
    by simp
  from filter_index_second[OF idne nm_ni]
  have f1: "filter (\<lambda>i. (''ID'' # kr_ireum # cs) ! i = kr_ireum) [0..<Suc (Suc (length cs))] = [1]" .
  have "select_columns [''ID'', kr_ireum] (rename ?m df) =
      Inr \<lparr>columns = [''ID'', kr_ireum], rows = map (\<lambda>r. [r ! 0, r ! 1]) (rows df)\<rparr>"
    using f0 f1 by (simp add: select_columns_def rn rr del: upt_Suc)
  with p0 p1 show ?thesis unfolding load_roster_def by (simp only: sum.case)
qed

text \<open>
  C4. Roster loading does raise. A table with the single column \<open>x\<close> has no second column
  for the positional fallback of the name, and \<^verbatim>\<open>list(df.columns)[1]\<close> raises IndexError.
  A table with the columns \<open>a\<close> and \<open>ID\<close> gets the same column as identifier (by its header)
  and as name (by position); the renaming then leaves no column named \<open>ID\<close> and the
  selection raises KeyError.
\<close>

theorem roster_missing_columns_raise:
  "load_roster \<lparr>columns = [''x''], rows = [[VStr ''S001''], [VStr ''S002'']]\<rparr> = Inl IndexError \<and>
   roster_upload (Some \<lparr>columns = [''x''], rows = [[VStr ''S001''], [VStr ''S002'']]\<rparr>) s
     = Inl IndexError \<and>
   load_roster \<lparr>columns = [''a'', ''ID''], rows = [[VStr ''Kim'', VStr ''S001'']]\<rparr> = Inl KeyError"
  by (simp add: roster_upload_def load_roster_def pick_column_def py_or_def column_at_def
      cols_lower_def lower_def lower_char_def dict_get_items dict_items_set dict_items_empty
      rename_def select_columns_def kr_hakbeon_def kr_ireum_def)

end
